theory Spec2Isabelle
  imports Main "HOL-Library.Monad_Syntax" "HOL-Library.Sublist"
begin

section \<open>The HTTP side of uStreamer (src/http.c)\<close>

text \<open>
  This theory embeds \<^verbatim>\<open>src/http.c\<close>: the exposed snapshot, the refresh tick, the
  request handlers and the intrusive list of stream clients.

  Conventions of the embedding.
  \<^item> \<^verbatim>\<open>unsigned char\<close> is \<^typ>\<open>char\<close> (a byte), so a buffer is a \<^typ>\<open>char list\<close>
    and a C string literal is an Isabelle string literal. \<^verbatim>\<open>NULL\<close> data is \<open>[]\<close>.
  \<^item> A call returns \<^typ>\<open>'a option\<close>: \<open>None\<close> means that the call does not
    return normally (a failed \<^verbatim>\<open>assert\<close>, an access outside a block or through a
    dangling pointer, a loop that never ends).
  \<^item> \<^verbatim>\<open>server->run->f\<close> is the field \<open>f\<close> of the one state record
    \<open>http_server_t\<close>: the run-time struct hangs off the server struct by a pointer
    that is set once, so the two are merged. The record also carries what the C
    program keeps outside its own structs: the heap cells of the clients and the
    part of libevent's state the handlers act on.
  \<^item> A C name that starts with an underscore loses it (\<^verbatim>\<open>_expose_new_picture\<close> is
    \<open>expose_new_picture\<close>); the picture's field \<^verbatim>\<open>size\<close> is \<open>size_p\<close> and a
    client's \<^verbatim>\<open>next\<close>/\<^verbatim>\<open>prev\<close> are \<open>next_client\<close>/\<open>prev_client\<close>.
  \<^item> Allocation and the creation of libevent objects are taken to succeed, so the
    \<^verbatim>\<open>assert\<close>s that guard them (\<^verbatim>\<open>A_CALLOC\<close>, \<^verbatim>\<open>A_REALLOC\<close>,
    \<^verbatim>\<open>evbuffer_new\<close>, ...) pass.
  \<^item> The handlers of \<^verbatim>\<open>/\<close> and \<^verbatim>\<open>/ping\<close> and \<^verbatim>\<open>http_server_listen\<close>,
    \<^verbatim>\<open>http_server_loop\<close>, \<^verbatim>\<open>http_server_loop_break\<close> and \<^verbatim>\<open>http_server_destroy\<close>
    take no part in the properties below and are left out.
\<close>

subsection \<open>Pictures, the stream slot and the exposed snapshot\<close>

record picture_t =
  data :: "char list"
  size_p :: nat
  allocated :: nat

record frame_t =
  picture :: picture_t
  width :: nat
  height :: nat

text \<open>
  \<^verbatim>\<open>struct stream_t\<close> and \<^verbatim>\<open>struct exposed_t\<close> (declared in headers that are not
  part of the sources) both have \<^verbatim>\<open>picture\<close>, \<^verbatim>\<open>width\<close> and \<^verbatim>\<open>height\<close>; they
  are two extensions of \<open>frame_t\<close>. \<open>mutex\<close> is true while the event loop's thread
  holds the stream's mutex.
\<close>

record stream_t = frame_t +
  updated :: bool
  mutex :: bool

record exposed_t = frame_t +
  online :: bool

text \<open>
  The embedded blank picture of \<^verbatim>\<open>data/blank.h\<close>. The header is not part of the
  sources, so its four constants are a parameter of every function that uses them.
\<close>

record blank_t =
  BLANK_JPG_DATA :: "char list"
  BLANK_JPG_SIZE :: nat
  BLANK_JPG_WIDTH :: nat
  BLANK_JPG_HEIGHT :: nat

subsection \<open>Clients, requests and libevent's connections\<close>

datatype evhttp_cmd_type = EVHTTP_REQ_GET | EVHTTP_REQ_HEAD

text \<open>
  An \<^verbatim>\<open>evhttp_request\<close>: \<open>evcon\<close> is what \<^verbatim>\<open>evhttp_request_get_connection\<close>
  returns (the number of a connection, or \<^verbatim>\<open>NULL\<close>), \<open>output_headers\<close> what
  \<^verbatim>\<open>evhttp_request_get_output_headers\<close> returns.
\<close>

record evhttp_request =
  req_id :: nat
  command :: evhttp_cmd_type
  evcon :: "nat option"
  output_headers :: "(string \<times> string) list"

record stream_client_t =
  request :: evhttp_request
  need_initial :: bool
  prev_client :: "nat option"
  next_client :: "nat option"

datatype callback = Http_callback_stream_write | Http_callback_stream_error

datatype ev_flag = EV_READ | EV_WRITE

text \<open>
  A connection's \<^verbatim>\<open>bufferevent\<close>: the three callbacks and their argument as
  \<^verbatim>\<open>bufferevent_setcb\<close> left them, the enabled events, and every byte handed to
  the transport so far.
\<close>

record bufferevent =
  readcb :: "callback option"
  writecb :: "callback option"
  errorcb :: "callback option"
  cbarg :: "nat option"
  enabled :: "ev_flag set"
  outbuf :: "char list"

record reply_t =
  reply_to :: nat
  code :: nat
  reason :: string
  headers :: "(string \<times> string) list"
  body :: "char list"

text \<open>
  What the event loop does to the stream slot, in order (\<open>accesses\<close> of the state
  below). \<open>hops\<close> of the state counts how often the loop of \<^verbatim>\<open>_http_callback_stream\<close>
  ran \<^verbatim>\<open>last = last->next\<close>. Both fields only record what the program did: nothing
  in the model reads them.
\<close>

datatype stream_field =
  F_updated | F_picture_size | F_picture_allocated | F_picture_data | F_width | F_height

datatype stream_event = Lock | Unlock | Read stream_field | Write stream_field

record http_server_t =
  host :: string
  port :: nat
  timeout :: nat
  stream :: stream_t
  exposed :: exposed_t
  refresh_interval :: "nat \<times> nat"
  stream_clients :: "nat option"
  clients :: "nat \<rightharpoonup> stream_client_t"
  connections :: "nat \<rightharpoonup> bufferevent"
  replies :: "reply_t list"
  freed_requests :: "nat list"
  accesses :: "stream_event list"
  hops :: nat

subsection \<open>Memory\<close>

text \<open>
  \<^verbatim>\<open>memcpy(dst, src, n)\<close> writes the first \<open>n\<close> bytes of \<open>src\<close> over the first \<open>n\<close>
  bytes of \<open>dst\<close>; it must stay inside both blocks.
\<close>

definition memcpy :: "char list \<Rightarrow> char list \<Rightarrow> nat \<Rightarrow> char list option" where
  "memcpy dst src n =
     (if n \<le> length dst \<and> n \<le> length src then Some (take n src @ drop n dst) else None)"

text \<open>
  \<^verbatim>\<open>A_REALLOC(ptr, n)\<close>: a block of \<open>n\<close> bytes that keeps the old contents. The
  bytes past the old length are indeterminate in C; the model writes zero bytes
  there. The program reads only the first \<open>size\<close> bytes of a picture, and those
  have been written by \<^verbatim>\<open>memcpy\<close>.
\<close>

definition A_REALLOC :: "char list \<Rightarrow> nat \<Rightarrow> char list" where
  "A_REALLOC ptr n = take n ptr @ replicate (n - length ptr) (CHR 0x00)"

definition touch :: "stream_event \<Rightarrow> http_server_t \<Rightarrow> http_server_t" where
  "touch e s = s\<lparr>accesses := accesses s @ [e]\<rparr>"

subsection \<open>The exposed snapshot\<close>

text \<open>
  \<^verbatim>\<open>_expose_new_picture\<close> (adopt). Every read of a field of the stream is recorded
  in \<open>accesses\<close>, one entry for each time the source names the field:
  \<^verbatim>\<open>picture.allocated\<close> in the test and, when the block grows, once more in
  \<^verbatim>\<open>A_REALLOC\<close> and once more in the assignment; \<^verbatim>\<open>picture.data\<close> and
  \<^verbatim>\<open>picture.size\<close> as arguments of \<^verbatim>\<open>memcpy\<close>; then \<^verbatim>\<open>picture.size\<close>,
  \<^verbatim>\<open>width\<close> and \<^verbatim>\<open>height\<close> in the three assignments.
\<close>

definition expose_new_picture :: "http_server_t \<Rightarrow> http_server_t option" where
  "expose_new_picture s0 =
     (let s = touch (Read F_picture_allocated) s0;
          ep = picture (exposed s);
          (ep, s) =
            (if allocated ep < allocated (picture (stream s))
             then (let s = touch (Read F_picture_allocated) s;
                       ep = ep\<lparr>data := A_REALLOC (data ep) (allocated (picture (stream s)))\<rparr>;
                       s = touch (Read F_picture_allocated) s;
                       ep = ep\<lparr>allocated := allocated (picture (stream s))\<rparr>
                   in (ep, s))
             else (ep, s));
          s = touch (Read F_picture_size) (touch (Read F_picture_data) s)
      in case memcpy (data ep) (data (picture (stream s))) (size_p (picture (stream s)) * 1) of
           None \<Rightarrow> None
         | Some d \<Rightarrow>
             (let s = touch (Read F_picture_size) s;
                  ep = ep\<lparr>data := d, size_p := size_p (picture (stream s))\<rparr>;
                  s = touch (Read F_width) s;
                  s = touch (Read F_height) s
              in Some (s\<lparr>exposed := (exposed s)\<lparr>picture := ep,
                            width := width (stream s),
                            height := height (stream s),
                            online := True\<rparr>\<rparr>)))"

text \<open>\<^verbatim>\<open>_expose_blank_picture\<close> (blankify).\<close>

definition expose_blank_picture :: "blank_t \<Rightarrow> http_server_t \<Rightarrow> http_server_t option" where
  "expose_blank_picture B s =
     (if online (exposed s) \<or> size_p (picture (exposed s)) = 0 then
        (let ep = picture (exposed s);
             ep = (if allocated ep < BLANK_JPG_SIZE B
                   then ep\<lparr>data := A_REALLOC (data ep) (BLANK_JPG_SIZE B),
                           allocated := BLANK_JPG_SIZE B\<rparr>
                   else ep)
         in case memcpy (data ep) (BLANK_JPG_DATA B) (BLANK_JPG_SIZE B * 1) of
              None \<Rightarrow> None
            | Some d \<Rightarrow>
                Some (s\<lparr>exposed := (exposed s)\<lparr>picture := ep\<lparr>data := d, size_p := BLANK_JPG_SIZE B\<rparr>,
                          width := BLANK_JPG_WIDTH B,
                          height := BLANK_JPG_HEIGHT B,
                          online := False\<rparr>\<rparr>))
      else Some s)"

text \<open>
  \<^verbatim>\<open>http_server_init\<close>: the three structs come zeroed from \<^verbatim>\<open>A_CALLOC\<close>, the
  fields are set, and the blank picture is exposed. The event base, the routes and
  the refresh timer that follow are libevent's; the model starts them with no
  connection and no reply.
\<close>

definition http_server_init :: "blank_t \<Rightarrow> stream_t \<Rightarrow> http_server_t option" where
  "http_server_init B stm =
     expose_blank_picture B
       \<lparr>host = ''localhost'', port = 8080, timeout = 10,
        stream = stm,
        exposed = \<lparr>picture = \<lparr>data = [], size_p = 0, allocated = 0\<rparr>,
                   width = 0, height = 0, online = False\<rparr>,
        refresh_interval = (0, 30000),
        stream_clients = None,
        clients = Map.empty,
        connections = Map.empty,
        replies = [],
        freed_requests = [],
        accesses = [],
        hops = 0\<rparr>"

subsection \<open>The refresh tick\<close>

text \<open>
  \<^verbatim>\<open>A_PTHREAD_M_LOCK\<close> and \<^verbatim>\<open>A_PTHREAD_M_UNLOCK\<close> on the stream's mutex. Locking a
  mutex the thread already holds never returns; unlocking one it does not hold
  fails the \<^verbatim>\<open>assert\<close>.
\<close>

definition A_PTHREAD_M_LOCK :: "http_server_t \<Rightarrow> http_server_t option" where
  "A_PTHREAD_M_LOCK s =
     (if mutex (stream s) then None
      else Some (touch Lock (s\<lparr>stream := (stream s)\<lparr>mutex := True\<rparr>\<rparr>)))"

definition A_PTHREAD_M_UNLOCK :: "http_server_t \<Rightarrow> http_server_t option" where
  "A_PTHREAD_M_UNLOCK s =
     (if mutex (stream s) then Some (touch Unlock (s\<lparr>stream := (stream s)\<lparr>mutex := False\<rparr>\<rparr>))
      else None)"

definition UNLOCK_STREAM :: "http_server_t \<Rightarrow> http_server_t option" where
  "UNLOCK_STREAM s =
     A_PTHREAD_M_UNLOCK (touch (Write F_updated) (s\<lparr>stream := (stream s)\<lparr>updated := False\<rparr>\<rparr>))"

definition bufferevent_setcb ::
  "callback option \<Rightarrow> callback option \<Rightarrow> callback option \<Rightarrow> nat \<Rightarrow> bufferevent \<Rightarrow> bufferevent" where
  "bufferevent_setcb r w e arg bev = bev\<lparr>readcb := r, writecb := w, errorcb := e, cbarg := Some arg\<rparr>"

definition bufferevent_enable :: "ev_flag set \<Rightarrow> bufferevent \<Rightarrow> bufferevent" where
  "bufferevent_enable evs bev = bev\<lparr>enabled := enabled bev \<union> evs\<rparr>"

text \<open>
  The loop of \<^verbatim>\<open>_http_queue_send_stream\<close>, from the client \<open>p\<close> on. It follows
  \<^verbatim>\<open>next\<close> until \<^verbatim>\<open>NULL\<close>, so on a cyclic list it does not return.
\<close>

partial_function (option) queue_send_from :: "nat option \<Rightarrow> http_server_t \<Rightarrow> http_server_t option" where
  "queue_send_from p s =
     (case p of
        None \<Rightarrow> Some s
      | Some client \<Rightarrow>
          (case clients s client of
             None \<Rightarrow> None
           | Some cl \<Rightarrow>
               (case evcon (request cl) of
                  None \<Rightarrow> queue_send_from (next_client cl) s
                | Some conn \<Rightarrow>
                    (case connections s conn of
                       None \<Rightarrow> None
                     | Some buf_event \<Rightarrow>
                         queue_send_from (next_client cl)
                           (s\<lparr>connections := (connections s)(conn \<mapsto>
                                bufferevent_enable {EV_READ, EV_WRITE}
                                  (bufferevent_setcb None (Some Http_callback_stream_write)
                                     (Some Http_callback_stream_error) client buf_event))\<rparr>)))))"

definition http_queue_send_stream :: "http_server_t \<Rightarrow> http_server_t option" where
  "http_queue_send_stream s = queue_send_from (stream_clients s) s"

text \<open>\<^verbatim>\<open>_http_exposed_refresh\<close>, the body of one tick.\<close>

definition http_exposed_refresh :: "blank_t \<Rightarrow> http_server_t \<Rightarrow> http_server_t option" where
  "http_exposed_refresh B s0 =
     (let s = touch (Read F_updated) s0 in
      if updated (stream s) then do {
        s \<leftarrow> A_PTHREAD_M_LOCK s;
        let s = touch (Read F_picture_size) s;
        s \<leftarrow> (if size_p (picture (stream s)) > 0 then do {
                 s \<leftarrow> expose_new_picture s;
                 UNLOCK_STREAM s
               } else do {
                 s \<leftarrow> UNLOCK_STREAM s;
                 expose_blank_picture B s
               });
        http_queue_send_stream s
      } else if \<not> online (exposed s) then http_queue_send_stream s
      else Some s)"

text \<open>
  The lock discipline of a sequence of accesses, started with the mutex held or
  not: a field of the stream is read or written only while the mutex is held, the
  mutex is taken only when free and released only when held, and it is free at the
  end.
\<close>

fun lock_discipline :: "bool \<Rightarrow> stream_event list \<Rightarrow> bool" where
  "lock_discipline held [] = (\<not> held)"
| "lock_discipline held (Lock # es) = (\<not> held \<and> lock_discipline True es)"
| "lock_discipline held (Unlock # es) = (held \<and> lock_discipline False es)"
| "lock_discipline held (Read f # es) = (held \<and> lock_discipline held es)"
| "lock_discipline held (Write f # es) = (held \<and> lock_discipline held es)"

text \<open>The frame copies of a sequence of accesses: the reads of the stream's picture data.\<close>

definition frame_copies :: "stream_event list \<Rightarrow> nat" where
  "frame_copies es = length (filter (\<lambda>e. e = Read F_picture_data) es)"

subsection \<open>Formatting\<close>

text \<open>Decimal digits, as \<^verbatim>\<open>%u\<close> and \<^verbatim>\<open>%lu\<close> print them.\<close>

fun dec :: "nat \<Rightarrow> string" where
  "dec n = (if n < 10 then [''0123456789'' ! n] else dec (n div 10) @ [''0123456789'' ! (n mod 10)])"

declare dec.simps [simp del]

text \<open>\<^verbatim>\<open>%06u\<close>: at least six digits, filled with zeros on the left.\<close>

definition dec06 :: "nat \<Rightarrow> string" where
  "dec06 n = replicate (6 - length (dec n)) (CHR ''0'') @ dec n"

text \<open>The cast \<^verbatim>\<open>(unsigned)\<close> of a signed value, and C's division, which truncates.\<close>

definition to_unsigned :: "int \<Rightarrow> nat" where
  "to_unsigned x = nat (x mod 2 ^ 32)"

definition c_div :: "int \<Rightarrow> int \<Rightarrow> int" where
  "c_div a b = (if (a < 0) = (b < 0) then \<bar>a\<bar> div \<bar>b\<bar> else - (\<bar>a\<bar> div \<bar>b\<bar>))"

record timespec =
  tv_sec :: int
  tv_nsec :: int

text \<open>
  The text of \<^verbatim>\<open>"%u.%06u"\<close> for \<^verbatim>\<open>(unsigned)tv_sec\<close> and
  \<^verbatim>\<open>(unsigned)(tv_nsec / 1000)\<close>. The time is what \<^verbatim>\<open>clock_gettime\<close> stored; it
  is an argument of the handlers that read the clock.
\<close>

definition x_timestamp :: "timespec \<Rightarrow> string" where
  "x_timestamp ts =
     dec (to_unsigned (tv_sec ts)) @ ''.'' @ dec06 (to_unsigned (c_div (tv_nsec ts) 1000))"

subsection \<open>libevent: buffers, headers, replies\<close>

text \<open>
  \<^verbatim>\<open>evbuffer_add(buf, data, n)\<close> appends the first \<open>n\<close> bytes of the block \<open>data\<close>;
  reading past the block is an error.
\<close>

definition evbuffer_add :: "char list \<Rightarrow> char list \<Rightarrow> nat \<Rightarrow> char list option" where
  "evbuffer_add buf d n = (if n \<le> length d then Some (buf @ take n d) else None)"


text \<open>
  \<^verbatim>\<open>ADD_HEADER(key, value)\<close> asserts that \<^verbatim>\<open>evhttp_add_header\<close> succeeds.
  libevent refuses a key or a value with a line break in it, and nothing else: a
  colon in the key is kept as it is.
\<close>

definition ADD_HEADER :: "string \<Rightarrow> string \<Rightarrow> evhttp_request \<Rightarrow> evhttp_request option" where
  "ADD_HEADER k v req =
     (if CHR 0x0D \<in> set (k @ v) \<or> CHR 0x0A \<in> set (k @ v) then None
      else Some (req\<lparr>output_headers := output_headers req @ [(k, v)]\<rparr>))"

text \<open>
  \<^verbatim>\<open>evhttp_send_reply(request, code, reason, databuf)\<close>: the reply goes on record
  with the output headers the handler gave the request, and the contents of
  \<open>databuf\<close> as its body (no body for \<^verbatim>\<open>NULL\<close>). What libevent adds on its own
  (\<^verbatim>\<open>Date\<close>, \<^verbatim>\<open>Content-Length\<close>) is not part of the record.
\<close>

definition evhttp_send_reply ::
  "evhttp_request \<Rightarrow> nat \<Rightarrow> string \<Rightarrow> char list option \<Rightarrow> http_server_t \<Rightarrow> http_server_t" where
  "evhttp_send_reply req c r databuf s =
     s\<lparr>replies := replies s @
         [\<lparr>reply_to = req_id req, code = c, reason = r, headers = output_headers req,
           body = (case databuf of None \<Rightarrow> [] | Some b \<Rightarrow> b)\<rparr>]\<rparr>"

definition HTTP_OK :: nat where
  "HTTP_OK = 200"

definition evhttp_request_free :: "evhttp_request \<Rightarrow> http_server_t \<Rightarrow> http_server_t" where
  "evhttp_request_free req s = s\<lparr>freed_requests := freed_requests s @ [req_id req]\<rparr>"

text \<open>\<^verbatim>\<open>evhttp_connection_free(conn)\<close>: the connection must be a live one.\<close>

definition evhttp_connection_free :: "nat \<Rightarrow> http_server_t \<Rightarrow> http_server_t option" where
  "evhttp_connection_free conn s =
     (case connections s conn of
        None \<Rightarrow> None
      | Some bev \<Rightarrow> Some (s\<lparr>connections := (connections s)(conn := None)\<rparr>))"

subsection \<open>The snapshot handler\<close>

text \<open>
  \<^verbatim>\<open>_http_callback_snapshot\<close>. \<^verbatim>\<open>PROCESS_HEAD_REQUEST\<close> is the first branch; the
  header names and values are the string literals of the source; \<open>req\<close> is the
  source's \<^verbatim>\<open>request\<close>.
\<close>

definition http_callback_snapshot ::
  "timespec \<Rightarrow> evhttp_request \<Rightarrow> http_server_t \<Rightarrow> http_server_t option" where
  "http_callback_snapshot x_timestamp_spec req s =
     (if command req = EVHTTP_REQ_HEAD
      then Some (evhttp_send_reply req HTTP_OK ''OK'' None s)
      else do {
        buf \<leftarrow> evbuffer_add [] (data (picture (exposed s))) (size_p (picture (exposed s)));
        let x_timestamp_buf = x_timestamp x_timestamp_spec;
        req \<leftarrow> ADD_HEADER ''Access-Control-Allow-Origin:'' ''*'' req;
        req \<leftarrow> ADD_HEADER ''Cache-Control''
          ''no-store, no-cache, must-revalidate, pre-check=0, post-check=0, max-age=0'' req;
        req \<leftarrow> ADD_HEADER ''Pragma'' ''no-cache'' req;
        req \<leftarrow> ADD_HEADER ''Expires'' ''Mon, 3 Jan 2000 12:34:56 GMT'' req;
        req \<leftarrow> ADD_HEADER ''X-Timestamp'' x_timestamp_buf req;
        req \<leftarrow> ADD_HEADER ''Content-Type'' ''image/jpeg'' req;
        Some (evhttp_send_reply req HTTP_OK ''OK'' (Some buf) s)
      })"

subsection \<open>Attaching a stream client\<close>

text \<open>
  The loop \<^verbatim>\<open>for (; last->next != NULL; last = last->next);\<close> of
  \<^verbatim>\<open>_http_callback_stream\<close>, over the heap cells \<open>h\<close>. It returns the last client
  (\<open>lastc\<close>, the source's \<^verbatim>\<open>last\<close>) together with \<open>nhops\<close>, the number of times
  \<^verbatim>\<open>last = last->next\<close> ran.
\<close>

partial_function (option) last_client_from ::
  "(nat \<rightharpoonup> stream_client_t) \<Rightarrow> nat \<Rightarrow> nat \<Rightarrow> (nat \<times> nat) option" where
  "last_client_from h lastc nhops =
     (case h lastc of
        None \<Rightarrow> None
      | Some cl \<Rightarrow>
          (case next_client cl of
             None \<Rightarrow> Some (lastc, nhops)
           | Some n \<Rightarrow> last_client_from h n (Suc nhops)))"

text \<open>
  \<^verbatim>\<open>_http_callback_stream\<close>. \<open>client\<close> is the address \<^verbatim>\<open>A_CALLOC\<close> returns for the
  new client (a cell that is not in use); the cell starts zeroed.
\<close>

definition http_callback_stream ::
  "nat \<Rightarrow> evhttp_request \<Rightarrow> http_server_t \<Rightarrow> http_server_t option" where
  "http_callback_stream client req s =
     (if command req = EVHTTP_REQ_HEAD
      then Some (evhttp_send_reply req HTTP_OK ''OK'' None s)
      else
        (case evcon req of
           Some conn \<Rightarrow> do {
             let cl = \<lparr>request = req, need_initial = True,
                       prev_client = None, next_client = None\<rparr>;
             s \<leftarrow> (case stream_clients s of
                     None \<Rightarrow>
                       Some (s\<lparr>stream_clients := Some client,
                               clients := (clients s)(client \<mapsto> cl)\<rparr>)
                   | Some first \<Rightarrow> do {
                       (lastc, nhops) \<leftarrow> last_client_from (clients s) first 0;
                       lc \<leftarrow> clients s lastc;
                       Some (s\<lparr>clients := (clients s)
                                 (client \<mapsto> cl\<lparr>prev_client := Some lastc\<rparr>,
                                  lastc \<mapsto> lc\<lparr>next_client := Some client\<rparr>),
                               hops := hops s + nhops\<rparr>)
                     });
             buf_event \<leftarrow> connections s conn;
             Some (s\<lparr>connections := (connections s)(conn \<mapsto>
                      bufferevent_enable {EV_READ}
                        (bufferevent_setcb None None (Some Http_callback_stream_error)
                           client buf_event))\<rparr>)
           }
         | None \<Rightarrow> Some (evhttp_request_free req s)))"

subsection \<open>Writing to a stream client\<close>

definition BOUNDARY :: string where
  "BOUNDARY = ''boundarydonotcross''"

definition RN :: string where
  "RN = [CHR 0x0D, CHR 0x0A]"


subsection \<open>Detaching a stream client\<close>

text \<open>\<^verbatim>\<open>_http_callback_stream_error\<close>, for the client at \<open>v_client\<close>.\<close>

definition http_callback_stream_error :: "nat \<Rightarrow> http_server_t \<Rightarrow> http_server_t option" where
  "http_callback_stream_error v_client s = do {
     client \<leftarrow> clients s v_client;
     s \<leftarrow> (case evcon (request client) of
             Some conn \<Rightarrow> evhttp_connection_free conn s
           | None \<Rightarrow> Some s);
     s \<leftarrow> (case prev_client client of
             None \<Rightarrow> Some (s\<lparr>stream_clients := next_client client\<rparr>)
           | Some p \<Rightarrow> do {
               pc \<leftarrow> clients s p;
               Some (s\<lparr>clients := (clients s)(p \<mapsto> pc\<lparr>next_client := next_client client\<rparr>)\<rparr>)
             });
     s \<leftarrow> (case next_client client of
             Some n \<Rightarrow> do {
               nc \<leftarrow> clients s n;
               Some (s\<lparr>clients := (clients s)(n \<mapsto> nc\<lparr>prev_client := prev_client client\<rparr>)\<rparr>)
             }
           | None \<Rightarrow> Some s);
     Some (s\<lparr>clients := (clients s)(v_client := None)\<rparr>)
   }"

subsection \<open>The registry as a list\<close>

text \<open>
  \<open>dll h p q xs\<close>: in the heap \<open>h\<close>, the cells \<open>xs\<close> are chained from \<open>q\<close> to
  \<^verbatim>\<open>NULL\<close> by \<open>next_client\<close>, and each cell's \<open>prev_client\<close> is the cell before it
  (\<open>p\<close> for the first).
\<close>

fun dll :: "(nat \<rightharpoonup> stream_client_t) \<Rightarrow> nat option \<Rightarrow> nat option \<Rightarrow> nat list \<Rightarrow> bool" where
  "dll h p q [] = (q = None)"
| "dll h p q (x # xs) =
     (q = Some x \<and>
      (case h x of
         None \<Rightarrow> False
       | Some c \<Rightarrow> prev_client c = p \<and> dll h (Some x) (next_client c) xs))"

text \<open>The clients of the registry, in the order the list links them.\<close>

definition registry :: "http_server_t \<Rightarrow> nat list \<Rightarrow> bool" where
  "registry s xs = dll (clients s) None (stream_clients s) xs"

subsection \<open>Well-formed states\<close>

text \<open>
  A picture's \<open>size_p\<close> is at most its \<open>allocated\<close>, and the block behind \<open>data\<close>
  has at least \<open>allocated\<close> bytes.
\<close>

definition picture_ok :: "picture_t \<Rightarrow> bool" where
  "picture_ok p = (size_p p \<le> allocated p \<and> allocated p \<le> length (data p))"

text \<open>The blank picture's array has at least \<open>BLANK_JPG_SIZE\<close> bytes.\<close>

definition blank_ok :: "blank_t \<Rightarrow> bool" where
  "blank_ok B = (BLANK_JPG_SIZE B \<le> length (BLANK_JPG_DATA B))"

text \<open>
  The exposed frame equals the blank picture: its valid bytes (the first \<open>size_p\<close>
  bytes of \<open>data\<close>), its width and its height are the blank picture's.
\<close>

definition is_blank :: "blank_t \<Rightarrow> exposed_t \<Rightarrow> bool" where
  "is_blank B e =
     (size_p (picture e) = BLANK_JPG_SIZE B \<and>
      take (size_p (picture e)) (data (picture e)) = take (BLANK_JPG_SIZE B) (BLANK_JPG_DATA B) \<and>
      width e = BLANK_JPG_WIDTH B \<and>
      height e = BLANK_JPG_HEIGHT B)"

definition blank_inv :: "blank_t \<Rightarrow> http_server_t \<Rightarrow> bool" where
  "blank_inv B s = (online (exposed s) \<or> is_blank B (exposed s))"

text \<open>
  The registry holds the clients \<open>xs\<close>, and the connection of each of them that
  has one is live.
\<close>

definition conns_live :: "http_server_t \<Rightarrow> nat list \<Rightarrow> bool" where
  "conns_live s xs =
     list_all (\<lambda>c. case clients s c of
                     None \<Rightarrow> False
                   | Some cl \<Rightarrow> (case evcon (request cl) of
                                   None \<Rightarrow> True
                                 | Some conn \<Rightarrow> connections s conn \<noteq> None)) xs"

definition clients_ok :: "http_server_t \<Rightarrow> nat list \<Rightarrow> bool" where
  "clients_ok s xs = (registry s xs \<and> conns_live s xs)"

text \<open>
  What \<^verbatim>\<open>_expose_new_picture\<close> does to the stream slot, and what one tick does to
  it after it has read \<open>updated\<close>, by the state they start in.
\<close>

definition adopt_accesses :: "http_server_t \<Rightarrow> stream_event list" where
  "adopt_accesses s =
     (if allocated (picture (exposed s)) < allocated (picture (stream s))
      then [Read F_picture_allocated, Read F_picture_allocated, Read F_picture_allocated]
      else [Read F_picture_allocated]) @
     [Read F_picture_data, Read F_picture_size, Read F_picture_size, Read F_width, Read F_height]"

definition tick_accesses :: "http_server_t \<Rightarrow> stream_event list" where
  "tick_accesses s =
     (if updated (stream s) then
        (if size_p (picture (stream s)) > 0
         then [Lock, Read F_picture_size] @ adopt_accesses s @ [Write F_updated, Unlock]
         else [Lock, Read F_picture_size, Write F_updated, Unlock])
      else [])"

text \<open>\<open>n\<close> calls of \<^verbatim>\<open>_expose_blank_picture\<close> in a row.\<close>

fun expose_blank_picture_times :: "nat \<Rightarrow> blank_t \<Rightarrow> http_server_t \<Rightarrow> http_server_t option" where
  "expose_blank_picture_times 0 B s = Some s"
| "expose_blank_picture_times (Suc n) B s =
     expose_blank_picture B s \<bind> expose_blank_picture_times n B"

definition exposed_ok :: "http_server_t \<Rightarrow> bool" where
  "exposed_ok s = (allocated (picture (exposed s)) \<le> length (data (picture (exposed s))))"

subsection \<open>Concrete states\<close>

text \<open>
  A small blank picture, a stream slot that holds a fresh frame of six bytes, and a
  server that exposes the blank picture to three stream clients (cells 1, 2, 3 on
  the connections 10, 20, 30). The first client has not been written to yet.
\<close>

definition blank0 :: blank_t where
  "blank0 = \<lparr>BLANK_JPG_DATA = [CHR 0xFF, CHR 0xD8, CHR 0xFF, CHR 0xD9],
             BLANK_JPG_SIZE = 4, BLANK_JPG_WIDTH = 640, BLANK_JPG_HEIGHT = 480\<rparr>"

definition stream0 :: stream_t where
  "stream0 = \<lparr>picture = \<lparr>data = ''frame1'', size_p = 6, allocated = 6\<rparr>,
              width = 320, height = 240, updated = True, mutex = False\<rparr>"

definition bev0 :: bufferevent where
  "bev0 = \<lparr>readcb = None, writecb = None, errorcb = Some Http_callback_stream_error,
           cbarg = None, enabled = {EV_READ}, outbuf = []\<rparr>"

definition get0 :: "nat \<Rightarrow> nat option \<Rightarrow> evhttp_request" where
  "get0 i c = \<lparr>req_id = i, command = EVHTTP_REQ_GET, evcon = c, output_headers = []\<rparr>"

definition head0 :: "nat \<Rightarrow> nat option \<Rightarrow> evhttp_request" where
  "head0 i c = \<lparr>req_id = i, command = EVHTTP_REQ_HEAD, evcon = c, output_headers = []\<rparr>"

definition server0 :: http_server_t where
  "server0 =
     \<lparr>host = ''localhost'', port = 8080, timeout = 10,
      stream = stream0,
      exposed = \<lparr>picture = \<lparr>data = [CHR 0xFF, CHR 0xD8, CHR 0xFF, CHR 0xD9],
                              size_p = 4, allocated = 4\<rparr>,
                 width = 640, height = 480, online = False\<rparr>,
      refresh_interval = (0, 30000),
      stream_clients = Some 1,
      clients = [1 \<mapsto> \<lparr>request = get0 1 (Some 10), need_initial = True,
                        prev_client = None, next_client = Some 2\<rparr>,
                 2 \<mapsto> \<lparr>request = get0 2 (Some 20), need_initial = False,
                        prev_client = Some 1, next_client = Some 3\<rparr>,
                 3 \<mapsto> \<lparr>request = get0 3 (Some 30), need_initial = False,
                        prev_client = Some 2, next_client = None\<rparr>],
      connections = [10 \<mapsto> bev0, 20 \<mapsto> bev0, 30 \<mapsto> bev0],
      replies = [],
      freed_requests = [],
      accesses = [],
      hops = 0\<rparr>"

definition now0 :: timespec where
  "now0 = \<lparr>tv_sec = 1540000000, tv_nsec = 5000000\<rparr>"

text \<open>The same server while it exposes a frame of six bytes in a block of eight.\<close>

definition server1 :: http_server_t where
  "server1 = server0\<lparr>exposed := \<lparr>picture = \<lparr>data = ''frame0xx'', size_p = 6, allocated = 8\<rparr>,
                 width = 320, height = 240, online = True\<rparr>\<rparr>"

subsection \<open>The multipart stream, as the specification words it\<close>

definition crlf :: string where
  "crlf = [CHR 0x0D, CHR 0x0A]"

text \<open>The preamble of \<^verbatim>\<open>/stream\<close>: its eight lines, each ended by CR LF.\<close>

definition stream_preamble :: string where
  "stream_preamble = concat (map (\<lambda>l. l @ crlf)
     [''HTTP/1.0 200 OK'',
      ''Access-Control-Allow-Origin: *'',
      ''Cache-Control: no-store, no-cache, must-revalidate, pre-check=0, post-check=0, max-age=0'',
      ''Pragma: no-cache'',
      ''Expires: Mon, 3 Jan 2000 12:34:56 GMT'',
      ''Content-Type: multipart/x-mixed-replace;boundary=boundarydonotcross'',
      '''',
      ''--boundarydonotcross''])"

text \<open>
  One part: three header lines and an empty line, the JPEG bytes, CR LF and the
  boundary line. \<^verbatim>\<open>Content-Length\<close> is the number of JPEG bytes that follow.
\<close>

definition multipart_part :: "string \<Rightarrow> char list \<Rightarrow> char list" where
  "multipart_part ts jpeg =
     concat (map (\<lambda>l. l @ crlf)
       [''Content-Type: image/jpeg'',
        ''Content-Length: '' @ dec (length jpeg),
        ''X-Timestamp: '' @ ts,
        '''']) @
     jpeg @ crlf @ ''--boundarydonotcross'' @ crlf"

text \<open>
  What the rest of the event loop may do between two writes to the client \<open>c\<close> on
  the connection \<open>k\<close>: anything that keeps the client's cell and the connection
  alive and leaves \<open>need_initial\<close> of the one and the bytes sent on the other alone.
  In the source only \<^verbatim>\<open>_http_callback_stream_write\<close> for this client touches either
  after the attach; the callbacks, the callback argument and the enabled events of
  the connection may change.
\<close>

definition same_client_view :: "nat \<Rightarrow> nat \<Rightarrow> http_server_t \<Rightarrow> http_server_t \<Rightarrow> bool" where
  "same_client_view k c t t' =
     (clients t' c \<noteq> None \<and> connections t' k \<noteq> None \<and>
      map_option need_initial (clients t' c) = map_option need_initial (clients t c) \<and>
      map_option outbuf (connections t' k) = map_option outbuf (connections t k))"


subsection \<open>Segments of the registry\<close>

text \<open>
  \<open>dlseg h p q xs r\<close> is \<open>dll\<close> for a segment: the chain \<open>xs\<close> starts at \<open>q\<close> and its
  last cell points on to \<open>r\<close>. \<open>last_or p xs\<close> is the cell before whatever follows
  \<open>xs\<close>.
\<close>

fun dlseg ::
  "(nat \<rightharpoonup> stream_client_t) \<Rightarrow> nat option \<Rightarrow> nat option \<Rightarrow> nat list \<Rightarrow> nat option \<Rightarrow> bool" where
  "dlseg h p q [] r = (q = r)"
| "dlseg h p q (x # xs) r =
     (q = Some x \<and>
      (case h x of
         None \<Rightarrow> False
       | Some c \<Rightarrow> prev_client c = p \<and> dlseg h (Some x) (next_client c) xs r))"

definition last_or :: "nat option \<Rightarrow> nat list \<Rightarrow> nat option" where
  "last_or p xs = (if xs = [] then p else Some (last xs))"

text \<open>
  The client cells after \<^verbatim>\<open>_http_callback_stream_error\<close> has unlinked and freed the
  cell \<open>c\<close> with contents \<open>cc\<close>: \<^verbatim>\<open>prev->next = next\<close>, \<^verbatim>\<open>next->prev = prev\<close>,
  \<^verbatim>\<open>free(client)\<close>.
\<close>

definition unlinked ::
  "(nat \<rightharpoonup> stream_client_t) \<Rightarrow> nat \<Rightarrow> stream_client_t \<Rightarrow> (nat \<rightharpoonup> stream_client_t)" where
  "unlinked h c cc =
     (let h1 = (case prev_client cc of
                  None \<Rightarrow> h
                | Some p \<Rightarrow> h(p \<mapsto> (the (h p))\<lparr>next_client := next_client cc\<rparr>));
          h2 = (case next_client cc of
                  None \<Rightarrow> h1
                | Some n \<Rightarrow> h1(n \<mapsto> (the (h1 n))\<lparr>prev_client := prev_client cc\<rparr>))
      in h2(c := None))"

text \<open>\<open>server0\<close> with one more live connection, 40, that no client uses yet.\<close>

definition server2 :: http_server_t where
  "server2 = server0\<lparr>connections := (connections server0)(40 \<mapsto> bev0)\<rparr>"

section \<open>Properties\<close>

subsection \<open>The exposed snapshot\<close>

lemma expose_blank_picture_noop:
  "\<not> online (exposed s) \<Longrightarrow> size_p (picture (exposed s)) \<noteq> 0 \<Longrightarrow> expose_blank_picture B s = Some s"
  by (simp add: expose_blank_picture_def)

lemma expose_blank_picture_first:
  assumes "blank_ok B" "allocated (picture (exposed s)) \<le> length (data (picture (exposed s)))"
    and "online (exposed s) \<or> size_p (picture (exposed s)) = 0"
  shows "\<exists>e. expose_blank_picture B s = Some (s\<lparr>exposed := e\<rparr>) \<and> is_blank B e \<and> \<not> online e
     \<and> allocated (picture e) \<le> length (data (picture e))
     \<and> allocated (picture e) = max (allocated (picture (exposed s))) (BLANK_JPG_SIZE B)"
  using assms
  by (auto simp: expose_blank_picture_def blank_ok_def memcpy_def A_REALLOC_def is_blank_def Let_def)

lemma expose_blank_picture_idem:
  assumes "expose_blank_picture B s = Some s'"
  shows "expose_blank_picture B s' = Some s'"
proof (cases "online (exposed s) \<or> size_p (picture (exposed s)) = 0")
  case False
  with assms show ?thesis by (simp add: expose_blank_picture_def)
next
  case True
  show ?thesis
  proof (cases "BLANK_JPG_SIZE B = 0")
    case False
    with True assms have "\<not> online (exposed s')" "size_p (picture (exposed s')) \<noteq> 0"
      by (auto simp: expose_blank_picture_def Let_def split: option.splits)
    then show ?thesis by (rule expose_blank_picture_noop)
  next
    case z: True
    with True assms show ?thesis
      by (auto simp: expose_blank_picture_def Let_def memcpy_def split: option.splits if_splits)
  qed
qed

lemma expose_new_picture_Some:
  assumes st: "picture_ok (picture (stream s))"
    and ex: "allocated (picture (exposed s)) \<le> length (data (picture (exposed s)))"
  shows "\<exists>e. expose_new_picture s =
           Some (s\<lparr>exposed := e,
                   accesses := accesses s @ adopt_accesses s\<rparr>) \<and>
         online e \<and>
         allocated (picture e) = max (allocated (picture (exposed s))) (allocated (picture (stream s))) \<and>
         size_p (picture e) = size_p (picture (stream s)) \<and>
         take (size_p (picture (stream s))) (data (picture e)) =
           take (size_p (picture (stream s))) (data (picture (stream s))) \<and>
         width e = width (stream s) \<and> height e = height (stream s) \<and>
         picture_ok (picture e) \<and>
         (\<forall>i. size_p (picture (stream s)) \<le> i \<and> i < length (data (picture (exposed s))) \<and>
              i < length (data (picture e)) \<longrightarrow>
              data (picture e) ! i = data (picture (exposed s)) ! i)"
proof -
  define n where "n = size_p (picture (stream s))"
  define src where "src = data (picture (stream s))"
  define grow where "grow = (allocated (picture (exposed s)) < allocated (picture (stream s)))"
  define blk where "blk = (if grow then A_REALLOC (data (picture (exposed s))) (allocated (picture (stream s)))
                            else data (picture (exposed s)))"
  define cap where "cap = (if grow then allocated (picture (stream s)) else allocated (picture (exposed s)))"
  define e where "e = (exposed s)\<lparr>picture := (picture (exposed s))\<lparr>data := take n src @ drop n blk,
                          allocated := cap, size_p := n\<rparr>,
                        width := width (stream s), height := height (stream s), online := True\<rparr>"
  have n_src: "n \<le> length src" and n_cap: "n \<le> allocated (picture (stream s))"
    using st by (auto simp: picture_ok_def n_def src_def)
  have len_blk: "cap \<le> length blk"
    using ex by (auto simp: blk_def cap_def A_REALLOC_def grow_def)
  have n_blk: "n \<le> length blk"
    using len_blk n_cap by (auto simp: cap_def grow_def split: if_splits)
  have cp: "memcpy blk src n = Some (take n src @ drop n blk)"
    using n_blk n_src by (simp add: memcpy_def)
  have run: "expose_new_picture s =
           Some (s\<lparr>exposed := e,
                   accesses := accesses s @ adopt_accesses s\<rparr>)"
    using cp
    by (cases grow)
       (simp_all add: expose_new_picture_def Let_def touch_def e_def blk_def cap_def
          adopt_accesses_def grow_def [symmetric] n_def [symmetric] src_def [symmetric])
  have old: "data (picture e) ! i = data (picture (exposed s)) ! i"
    if "n \<le> i" "i < length (data (picture (exposed s)))" "i < length (data (picture e))" for i
  proof -
    have "data (picture e) ! i = blk ! i"
      using that n_src n_blk by (simp add: e_def nth_append)
    also have "\<dots> = data (picture (exposed s)) ! i"
      using that by (auto simp: blk_def A_REALLOC_def nth_append e_def)
    finally show ?thesis .
  qed
  have "picture_ok (picture e)"
    using n_src n_blk len_blk n_cap ex by (auto simp: picture_ok_def e_def cap_def grow_def)
  moreover have "allocated (picture e) =
      max (allocated (picture (exposed s))) (allocated (picture (stream s)))"
    by (auto simp: e_def cap_def grow_def)
  moreover have "take n (data (picture e)) = take n src"
    using n_src by (simp add: e_def)
  ultimately show ?thesis
    using run old by (intro exI [of _ e]) (simp add: n_def src_def e_def)
qed

subsection \<open>The fan-out and the tick\<close>

lemma queue_send_from_None: "queue_send_from None s = Some s"
  by (subst queue_send_from.simps) simp

lemma conns_live_cong:
  "clients s' = clients s \<Longrightarrow> dom (connections s') = dom (connections s) \<Longrightarrow>
   conns_live s' xs = conns_live s xs"
  by (auto simp: conns_live_def list_all_iff domIff split: option.splits
      intro!: ball_cong)

lemma queue_send_from_total:
  "dll (clients s) p q xs \<Longrightarrow> conns_live s xs \<Longrightarrow>
   \<exists>cs. queue_send_from q s = Some (s\<lparr>connections := cs\<rparr>) \<and> dom cs = dom (connections s)"
proof (induction xs arbitrary: p q s)
  case Nil
  then show ?case by (auto simp: queue_send_from_None intro: exI [of _ "connections s"])
next
  case (Cons x xs)
  from Cons.prems obtain cl where q: "q = Some x" and cl: "clients s x = Some cl"
    and pr: "prev_client cl = p" and tl: "dll (clients s) (Some x) (next_client cl) xs"
    by (auto split: option.splits)
  from Cons.prems have live: "conns_live s xs" by (simp add: conns_live_def)
  show ?case
  proof (cases "evcon (request cl)")
    case None
    from Cons.IH [OF tl live] None q cl show ?thesis
      by (subst queue_send_from.simps) simp
  next
    case (Some conn)
    with Cons.prems cl obtain bev where bev: "connections s conn = Some bev"
      by (auto simp: conns_live_def)
    define s1 where "s1 = s\<lparr>connections := (connections s)(conn \<mapsto>
         bufferevent_enable {EV_READ, EV_WRITE}
           (bufferevent_setcb None (Some Http_callback_stream_write)
              (Some Http_callback_stream_error) x bev))\<rparr>"
    have c1: "clients s1 = clients s" by (simp add: s1_def)
    have d1: "dom (connections s1) = dom (connections s)"
      using bev by (auto simp: s1_def)
    have tl1: "dll (clients s1) (Some x) (next_client cl) xs" using tl c1 by simp
    have live1: "conns_live s1 xs" using live conns_live_cong [OF c1 d1] by simp
    from Cons.IH [OF tl1 live1] obtain cs where
      r: "queue_send_from (next_client cl) s1 = Some (s1\<lparr>connections := cs\<rparr>)"
      and d: "dom cs = dom (connections s1)" by blast
    have "queue_send_from q s = queue_send_from (next_client cl) s1"
      using q cl Some bev by (subst queue_send_from.simps) (simp add: s1_def)
    with r d d1 show ?thesis by (auto simp: s1_def)
  qed
qed

lemma queue_send_from_outbuf:
  "dll (clients s) p q xs \<Longrightarrow> conns_live s xs \<Longrightarrow> queue_send_from q s = Some s' \<Longrightarrow>
   clients s' = clients s \<and>
   (\<forall>k. map_option outbuf (connections s' k) = map_option outbuf (connections s k))"
proof (induction xs arbitrary: p q s)
  case Nil
  then show ?case by (simp add: queue_send_from_None)
next
  case (Cons x xs)
  from Cons.prems(1) obtain cl where q: "q = Some x" and cl: "clients s x = Some cl"
    and tl: "dll (clients s) (Some x) (next_client cl) xs"
    by (auto split: option.splits)
  from Cons.prems(2) have live: "conns_live s xs" by (simp add: conns_live_def)
  show ?case
  proof (cases "evcon (request cl)")
    case None
    have "queue_send_from q s = queue_send_from (next_client cl) s"
      using q cl None by (subst queue_send_from.simps) simp
    with Cons.prems(3) have "queue_send_from (next_client cl) s = Some s'" by simp
    from Cons.IH [OF tl live this] show ?thesis .
  next
    case (Some conn)
    with Cons.prems(2) cl obtain b where b: "connections s conn = Some b"
      by (auto simp: conns_live_def)
    define s1 where "s1 = s\<lparr>connections := (connections s)(conn \<mapsto>
         bufferevent_enable {EV_READ, EV_WRITE}
           (bufferevent_setcb None (Some Http_callback_stream_write)
              (Some Http_callback_stream_error) x b))\<rparr>"
    have c1: "clients s1 = clients s" by (simp add: s1_def)
    have d1: "dom (connections s1) = dom (connections s)"
      using b by (auto simp: s1_def)
    have o1: "\<forall>k. map_option outbuf (connections s1 k) = map_option outbuf (connections s k)"
      using b by (simp add: s1_def bufferevent_enable_def bufferevent_setcb_def)
    have tl1: "dll (clients s1) (Some x) (next_client cl) xs" using tl c1 by simp
    have live1: "conns_live s1 xs" using live conns_live_cong [OF c1 d1] by simp
    have "queue_send_from q s = queue_send_from (next_client cl) s1"
      using q cl Some b by (subst queue_send_from.simps) (simp add: s1_def)
    with Cons.prems(3) have "queue_send_from (next_client cl) s1 = Some s'" by simp
    from Cons.IH [OF tl1 live1 this] c1 o1 show ?thesis by simp
  qed
qed

lemma http_queue_send_stream_total:
  assumes "clients_ok s xs"
  shows "\<exists>cs. http_queue_send_stream s = Some (s\<lparr>connections := cs\<rparr>) \<and>
              (dom cs = dom (connections s) \<and>
               (\<forall>k. map_option outbuf (cs k) = map_option outbuf (connections s k)))"
proof -
  from assms have d: "dll (clients s) None (stream_clients s) xs" and l: "conns_live s xs"
    by (simp_all add: clients_ok_def registry_def)
  from queue_send_from_total [OF d l] obtain cs where
    r: "queue_send_from (stream_clients s) s = Some (s\<lparr>connections := cs\<rparr>)"
    and dm: "dom cs = dom (connections s)" by blast
  from queue_send_from_outbuf [OF d l r]
  have "\<forall>k. map_option outbuf (cs k) = map_option outbuf (connections s k)" by simp
  with r dm show ?thesis by (auto simp: http_queue_send_stream_def)
qed

lemma clients_ok_cong:
  "clients_ok s xs \<Longrightarrow> clients s' = clients s \<Longrightarrow> connections s' = connections s \<Longrightarrow>
   stream_clients s' = stream_clients s \<Longrightarrow> clients_ok s' xs"
  using conns_live_cong [of s' s xs] by (simp add: clients_ok_def registry_def)

lemma refresh_idle_online: "\<not> updated (stream s) \<Longrightarrow> online (exposed s) \<Longrightarrow>
  http_exposed_refresh B s = Some (s\<lparr>accesses := accesses s @ [Read F_updated]\<rparr>)"
  by (simp add: http_exposed_refresh_def Let_def touch_def)

lemma refresh_idle_blank: "\<not> updated (stream s) \<Longrightarrow> \<not> online (exposed s) \<Longrightarrow>
  http_exposed_refresh B s = http_queue_send_stream (s\<lparr>accesses := accesses s @ [Read F_updated]\<rparr>)"
  by (simp add: http_exposed_refresh_def Let_def touch_def)

lemma refresh_offline: "updated (stream s) \<Longrightarrow> \<not> mutex (stream s) \<Longrightarrow> size_p (picture (stream s)) = 0 \<Longrightarrow>
  http_exposed_refresh B s =
    expose_blank_picture B (s\<lparr>stream := (stream s)\<lparr>updated := False, mutex := False\<rparr>,
                   accesses := accesses s @ [Read F_updated, Lock, Read F_picture_size, Write F_updated, Unlock]\<rparr>)
      \<bind> http_queue_send_stream"
  by (simp add: http_exposed_refresh_def Let_def A_PTHREAD_M_LOCK_def
            UNLOCK_STREAM_def A_PTHREAD_M_UNLOCK_def touch_def)

lemma refresh_frame: "updated (stream s) \<Longrightarrow> \<not> mutex (stream s) \<Longrightarrow> size_p (picture (stream s)) > 0 \<Longrightarrow>
  http_exposed_refresh B s =
    expose_new_picture (s\<lparr>stream := (stream s)\<lparr>mutex := True\<rparr>,
                   accesses := accesses s @ [Read F_updated, Lock, Read F_picture_size]\<rparr>)
      \<bind> UNLOCK_STREAM \<bind> http_queue_send_stream"
  by (simp add: http_exposed_refresh_def Let_def A_PTHREAD_M_LOCK_def touch_def)

lemma UNLOCK_STREAM_held:
  "mutex (stream s) \<Longrightarrow> UNLOCK_STREAM s =
     Some (s\<lparr>stream := (stream s)\<lparr>updated := False, mutex := False\<rparr>,
             accesses := accesses s @ [Write F_updated, Unlock]\<rparr>)"
  by (simp add: UNLOCK_STREAM_def A_PTHREAD_M_UNLOCK_def touch_def)

lemma mutex_free_update: "\<not> mutex r \<Longrightarrow> r\<lparr>mutex := False\<rparr> = r"
  by (cases r) simp

lemma updated_clear_update: "\<not> updated r \<Longrightarrow> r\<lparr>updated := False\<rparr> = r"
  by (cases r) simp

lemma http_exposed_refresh_result:
  assumes mx: "\<not> mutex (stream s)"
    and st: "picture_ok (picture (stream s))"
    and ex: "allocated (picture (exposed s)) \<le> length (data (picture (exposed s)))"
    and bl: "blank_ok B"
    and cl: "clients_ok s xs"
  shows "\<exists>e cs. http_exposed_refresh B s =
           Some (s\<lparr>stream := (stream s)\<lparr>updated := False, mutex := False\<rparr>,
                   exposed := e,
                   accesses := accesses s @ Read F_updated # tick_accesses s,
                   connections := cs\<rparr>) \<and>
           (dom cs = dom (connections s) \<and>
             (\<forall>k. map_option outbuf (cs k) = map_option outbuf (connections s k))) \<and>
           allocated (picture e) \<le> length (data (picture e)) \<and>
           (blank_inv B s \<longrightarrow> online e \<or> is_blank B e) \<and>
           (updated (stream s) \<longrightarrow> online e = (size_p (picture (stream s)) > 0)) \<and>
           (\<not> updated (stream s) \<longrightarrow> e = exposed s)"
proof -
  define t where "t = (\<lambda>e. s\<lparr>stream := (stream s)\<lparr>updated := False, mutex := False\<rparr>,
                   exposed := e,
                   accesses := accesses s @ Read F_updated # tick_accesses s\<rparr>)"
  have fan: "\<exists>cs. http_queue_send_stream (t e) = Some (t e\<lparr>connections := cs\<rparr>) \<and>
                  (dom cs = dom (connections s) \<and>
             (\<forall>k. map_option outbuf (cs k) = map_option outbuf (connections s k)))" for e
  proof -
    have "clients_ok (t e) xs" by (rule clients_ok_cong [OF cl]) (simp_all add: t_def)
    from http_queue_send_stream_total [OF this] show ?thesis by (simp add: t_def)
  qed
  have goal: "\<exists>e cs. http_exposed_refresh B s = Some (t e\<lparr>connections := cs\<rparr>) \<and>
           (dom cs = dom (connections s) \<and>
             (\<forall>k. map_option outbuf (cs k) = map_option outbuf (connections s k))) \<and>
           allocated (picture e) \<le> length (data (picture e)) \<and>
           (blank_inv B s \<longrightarrow> online e \<or> is_blank B e) \<and>
           (updated (stream s) \<longrightarrow> online e = (size_p (picture (stream s)) > 0)) \<and>
           (\<not> updated (stream s) \<longrightarrow> e = exposed s)"
  proof (cases "updated (stream s)")
    case False
    then have same: "(stream s)\<lparr>updated := False, mutex := False\<rparr> = stream s"
      using mx by (simp add: mutex_free_update updated_clear_update)
    have t0: "t (exposed s) = s\<lparr>accesses := accesses s @ [Read F_updated]\<rparr>"
      using False by (simp add: t_def same tick_accesses_def)
    show ?thesis
    proof (cases "online (exposed s)")
      case True
      have "http_exposed_refresh B s = Some (t (exposed s)\<lparr>connections := connections s\<rparr>)"
        using refresh_idle_online [OF False True] by (simp add: t0)
      with False ex True show ?thesis by blast
    next
      case off: False
      from fan obtain cs where
        "http_queue_send_stream (t (exposed s)) = Some (t (exposed s)\<lparr>connections := cs\<rparr>)"
        "(dom cs = dom (connections s) \<and>
             (\<forall>k. map_option outbuf (cs k) = map_option outbuf (connections s k)))" by blast
      with refresh_idle_blank [OF False off, of B] t0
      have "http_exposed_refresh B s = Some (t (exposed s)\<lparr>connections := cs\<rparr>)"
        "(dom cs = dom (connections s) \<and>
             (\<forall>k. map_option outbuf (cs k) = map_option outbuf (connections s k)))" by simp_all
      with False ex show ?thesis by (auto simp: blank_inv_def)
    qed
  next
    case True
    show ?thesis
    proof (cases "size_p (picture (stream s)) > 0")
      case pos: True
      define s1 where "s1 = s\<lparr>stream := (stream s)\<lparr>mutex := True\<rparr>,
                   accesses := accesses s @ [Read F_updated, Lock, Read F_picture_size]\<rparr>"
      have st1: "picture_ok (picture (stream s1))" using st by (simp add: s1_def)
      have ex1: "allocated (picture (exposed s1)) \<le> length (data (picture (exposed s1)))"
        using ex by (simp add: s1_def)
      from expose_new_picture_Some [OF st1 ex1] obtain e where
        r: "expose_new_picture s1 = Some (s1\<lparr>exposed := e, accesses := accesses s1 @ adopt_accesses s1\<rparr>)"
        and on: "online e" and pk: "picture_ok (picture e)" by blast
      have u: "expose_new_picture s1 \<bind> UNLOCK_STREAM = Some (t e)"
        unfolding r using True pos
        by (simp add: UNLOCK_STREAM_held s1_def t_def tick_accesses_def adopt_accesses_def)
      from fan obtain cs where
        q: "http_queue_send_stream (t e) = Some (t e\<lparr>connections := cs\<rparr>)"
        and d: "(dom cs = dom (connections s) \<and>
             (\<forall>k. map_option outbuf (cs k) = map_option outbuf (connections s k)))" by blast
      have "http_exposed_refresh B s =
          expose_new_picture s1 \<bind> UNLOCK_STREAM \<bind> http_queue_send_stream"
        unfolding s1_def by (rule refresh_frame [OF True mx pos])
      then have "http_exposed_refresh B s = Some (t e\<lparr>connections := cs\<rparr>)"
        by (simp only: u q bind.bind_lunit)
      with d True pos on pk show ?thesis by (auto simp: picture_ok_def)
    next
      case False
      then have zero: "size_p (picture (stream s)) = 0" by simp
      define s2 where "s2 = t (exposed s)"
      have ex2: "allocated (picture (exposed s2)) \<le> length (data (picture (exposed s2)))"
        using ex by (simp add: s2_def t_def)
      have "\<exists>e. expose_blank_picture B s2 = Some (t e) \<and>
          allocated (picture e) \<le> length (data (picture e)) \<and> \<not> online e \<and>
          (blank_inv B s \<longrightarrow> is_blank B e)"
      proof (cases "online (exposed s2) \<or> size_p (picture (exposed s2)) = 0")
        case True
        from expose_blank_picture_first [OF bl ex2 True] obtain e where
          "expose_blank_picture B s2 = Some (s2\<lparr>exposed := e\<rparr>)" "is_blank B e" "\<not> online e"
          "allocated (picture e) \<le> length (data (picture e))" by blast
        moreover have "s2\<lparr>exposed := e\<rparr> = t e" by (simp add: s2_def t_def)
        ultimately show ?thesis by auto
      next
        case False
        then have "expose_blank_picture B s2 = Some s2"
          by (simp add: expose_blank_picture_noop)
        with False ex show ?thesis
          by (intro exI [of _ "exposed s"]) (auto simp: blank_inv_def s2_def t_def)
      qed
      then obtain e where r: "expose_blank_picture B s2 = Some (t e)"
        and pk: "allocated (picture e) \<le> length (data (picture e))" and off: "\<not> online e"
        and bi: "blank_inv B s \<longrightarrow> is_blank B e" by blast
      from fan obtain cs where
        q: "http_queue_send_stream (t e) = Some (t e\<lparr>connections := cs\<rparr>)"
        and d: "(dom cs = dom (connections s) \<and>
             (\<forall>k. map_option outbuf (cs k) = map_option outbuf (connections s k)))" by blast
      have "s2 = s\<lparr>stream := (stream s)\<lparr>updated := False, mutex := False\<rparr>,
                   accesses := accesses s @ [Read F_updated, Lock, Read F_picture_size, Write F_updated, Unlock]\<rparr>"
        using True zero by (simp add: s2_def t_def tick_accesses_def)
      with refresh_offline [OF True mx zero, of B] r q
      have "http_exposed_refresh B s = Some (t e\<lparr>connections := cs\<rparr>)" by simp
      with d True zero off pk bi show ?thesis by auto
    qed
  qed
  then show ?thesis by (simp add: t_def)
qed

subsection \<open>Requests that create no client\<close>

text \<open>
  Claim C7. A \<^verbatim>\<open>HEAD\<close> request on \<^verbatim>\<open>/stream\<close> is answered \<^verbatim>\<open>200 OK\<close> with an empty
  body and creates no stream client: the one change to the state is the reply that
  was sent; the registry, the client cells and the callbacks of every connection
  are as before.
\<close>

theorem head_stream_creates_no_client:
  assumes "command req = EVHTTP_REQ_HEAD"
  shows "\<exists>s'. http_callback_stream client req s = Some s' \<and>
           replies s' = replies s @
             [\<lparr>reply_to = req_id req, code = 200, reason = ''OK'',
               headers = output_headers req, body = []\<rparr>] \<and>
           stream_clients s' = stream_clients s \<and>
           clients s' = clients s \<and>
           connections s' = connections s \<and>
           s' = s\<lparr>replies := replies s'\<rparr>"
  using assms by (simp add: http_callback_stream_def evhttp_send_reply_def HTTP_OK_def)

theorem head_stream_creates_no_client_witness:
  "command (head0 9 (Some 40)) = EVHTTP_REQ_HEAD \<and>
   (\<exists>s'. http_callback_stream 4 (head0 9 (Some 40)) server0 = Some s' \<and>
      replies s' = [\<lparr>reply_to = 9, code = 200, reason = ''OK'', headers = [], body = []\<rparr>] \<and>
      stream_clients s' = Some 1 \<and>
      clients s' = clients server0 \<and>
      connections s' = connections server0)"
  using head_stream_creates_no_client [of "head0 9 (Some 40)" 4 server0]
  by (auto simp: head0_def server0_def)

text \<open>
  Claim C10. A \<^verbatim>\<open>GET\<close> request on \<^verbatim>\<open>/stream\<close> whose connection is \<^verbatim>\<open>NULL\<close> is
  freed and creates no client: the one change to the state is the freed request;
  the registry, the client cells and the callbacks of every connection are as
  before, and no reply is sent.
\<close>

theorem stream_without_connection_creates_no_client:
  assumes "command req \<noteq> EVHTTP_REQ_HEAD" and "evcon req = None"
  shows "\<exists>s'. http_callback_stream client req s = Some s' \<and>
           freed_requests s' = freed_requests s @ [req_id req] \<and>
           stream_clients s' = stream_clients s \<and>
           clients s' = clients s \<and>
           connections s' = connections s \<and>
           replies s' = replies s \<and>
           s' = s\<lparr>freed_requests := freed_requests s'\<rparr>"
  using assms by (simp add: http_callback_stream_def evhttp_request_free_def)

theorem stream_without_connection_creates_no_client_witness:
  "command (get0 9 None) \<noteq> EVHTTP_REQ_HEAD \<and> evcon (get0 9 None) = None \<and>
   (\<exists>s'. http_callback_stream 4 (get0 9 None) server0 = Some s' \<and>
      freed_requests s' = [9] \<and>
      stream_clients s' = Some 1 \<and>
      clients s' = clients server0 \<and>
      connections s' = connections server0 \<and>
      replies s' = [])"
  using stream_without_connection_creates_no_client [of "get0 9 None" 4 server0]
  by (auto simp: get0_def server0_def)

subsection \<open>Blanking the snapshot\<close>

lemma expose_blank_picture_total:
  assumes "blank_ok B" "exposed_ok s"
  shows "\<exists>e. expose_blank_picture B s = Some (s\<lparr>exposed := e\<rparr>) \<and>
             allocated (picture e) \<le> length (data (picture e)) \<and> \<not> online e \<and>
             (blank_inv B s \<longrightarrow> is_blank B e)"
proof (cases "online (exposed s) \<or> size_p (picture (exposed s)) = 0")
  case True
  from expose_blank_picture_first [OF assms(1) assms(2) [unfolded exposed_ok_def] True]
  show ?thesis by blast
next
  case False
  then have "expose_blank_picture B s = Some s"
    by (simp add: expose_blank_picture_noop)
  with False assms(2) show ?thesis
    by (intro exI [of _ "exposed s"]) (auto simp: blank_inv_def exposed_ok_def)
qed

lemma expose_blank_picture_blank_noop:
  assumes "blank_inv B s" "\<not> online (exposed s)"
  shows "expose_blank_picture B s = Some s"
proof (cases "size_p (picture (exposed s)) = 0")
  case False
  with assms(2) show ?thesis by (simp add: expose_blank_picture_noop)
next
  case True
  from assms have b: "is_blank B (exposed s)" by (simp add: blank_inv_def)
  with True have z: "BLANK_JPG_SIZE B = 0" by (simp add: is_blank_def)
  have "(exposed s)\<lparr>picture := (picture (exposed s))\<lparr>data := data (picture (exposed s)), size_p := 0\<rparr>,
          width := BLANK_JPG_WIDTH B, height := BLANK_JPG_HEIGHT B, online := False\<rparr> = exposed s"
    using b True assms(2) by (simp add: is_blank_def)
  then show ?thesis
    using True z by (simp add: expose_blank_picture_def Let_def memcpy_def)
qed

lemma expose_blank_picture_times_Suc:
  "expose_blank_picture_times (Suc n) B s = expose_blank_picture B s"
proof (induction n arbitrary: s)
  case 0
  show ?case by (cases "expose_blank_picture B s") simp_all
next
  case (Suc n)
  show ?case
  proof (cases "expose_blank_picture B s")
    case None
    then show ?thesis by simp
  next
    case (Some s')
    have "expose_blank_picture_times (Suc (Suc n)) B s = expose_blank_picture_times (Suc n) B s'"
      using Some by simp
    also have "\<dots> = expose_blank_picture B s'" by (rule Suc.IH)
    also have "\<dots> = Some s'" using Some by (rule expose_blank_picture_idem)
    finally show ?thesis using Some by simp
  qed
qed

text \<open>
  Claim C5. \<^verbatim>\<open>blankify()\<close> is idempotent: \<open>N \<ge> 1\<close> calls in a row end exactly as one
  call does, from every state (a call that does not return included). The call
  returns whenever the blank picture and the exposed block are well formed, and it
  changes nothing when the snapshot is already blank.
\<close>

theorem blankify_idempotent:
  "(1 \<le> N \<longrightarrow> expose_blank_picture_times N B s = expose_blank_picture B s) \<and>
   (blank_ok B \<and> exposed_ok s \<longrightarrow> (\<exists>s'. expose_blank_picture B s = Some s')) \<and>
   (blank_inv B s \<and> \<not> online (exposed s) \<longrightarrow> expose_blank_picture B s = Some s)"
proof (intro conjI impI)
  assume "1 \<le> N"
  then obtain n where "N = Suc n" by (cases N) auto
  then show "expose_blank_picture_times N B s = expose_blank_picture B s"
    by (simp only: expose_blank_picture_times_Suc)
next
  assume "blank_ok B \<and> exposed_ok s"
  then show "\<exists>s'. expose_blank_picture B s = Some s'"
    using expose_blank_picture_total [of B s] by blast
next
  assume "blank_inv B s \<and> \<not> online (exposed s)"
  then show "expose_blank_picture B s = Some s"
    by (simp add: expose_blank_picture_blank_noop)
qed

theorem blankify_idempotent_witness:
  "(1::nat) \<le> 3 \<and> blank_ok blank0 \<and> exposed_ok server1 \<and>
   blank_inv blank0 server0 \<and> \<not> online (exposed server0) \<and>
   expose_blank_picture_times 3 blank0 server1 = expose_blank_picture blank0 server1 \<and>
   (\<exists>s'. expose_blank_picture blank0 server1 = Some s') \<and>
   expose_blank_picture blank0 server1 =
     Some (server1\<lparr>exposed := \<lparr>picture = \<lparr>data = [CHR 0xFF, CHR 0xD8, CHR 0xFF, CHR 0xD9] @ ''e0xx'',
                                             size_p = 4, allocated = 8\<rparr>,
                                width = 640, height = 480, online = False\<rparr>\<rparr>) \<and>
   expose_blank_picture blank0 server0 = Some server0"
  using blankify_idempotent [of 3 blank0 server1] blankify_idempotent [of 3 blank0 server0]
  by (simp add: blank_ok_def exposed_ok_def blank_inv_def is_blank_def blank0_def server0_def
        server1_def expose_blank_picture_def memcpy_def)

subsection \<open>Adopting a frame\<close>

text \<open>
  Claim C6. \<^verbatim>\<open>adopt(stream)\<close>: for a well-formed stream picture (\<open>size \<le> allocated\<close>,
  inside its block) the call returns; the exposed capacity becomes the maximum of
  the two capacities; exactly \<open>size\<close> bytes are copied (the first \<open>size\<close> bytes of the
  exposed block are the stream's, every later byte that was there before keeps its
  value); size, width and height are the stream's; \<open>online\<close> is true. The stream
  slot itself is left as it was: the exposed picture has its own block, so it is a
  copy that later writes to the stream do not reach. The postcondition needs
  neither \<open>size > 0\<close> nor the lock, so it holds in particular under the claim's
  precondition.
\<close>

theorem adopt_postcondition:
  assumes "picture_ok (picture (stream s))" and "exposed_ok s"
  shows "\<exists>s'. expose_new_picture s = Some s' \<and>
           allocated (picture (exposed s')) =
             max (allocated (picture (exposed s))) (allocated (picture (stream s))) \<and>
           size_p (picture (exposed s')) = size_p (picture (stream s)) \<and>
           take (size_p (picture (stream s))) (data (picture (exposed s'))) =
             take (size_p (picture (stream s))) (data (picture (stream s))) \<and>
           (\<forall>i. size_p (picture (stream s)) \<le> i \<and> i < length (data (picture (exposed s))) \<and>
                i < length (data (picture (exposed s'))) \<longrightarrow>
                data (picture (exposed s')) ! i = data (picture (exposed s)) ! i) \<and>
           width (exposed s') = width (stream s) \<and>
           height (exposed s') = height (stream s) \<and>
           online (exposed s') \<and>
           picture_ok (picture (exposed s')) \<and>
           stream s' = stream s \<and>
           s' = s\<lparr>exposed := exposed s', accesses := accesses s'\<rparr>"
proof -
  from expose_new_picture_Some [OF assms(1) assms(2) [unfolded exposed_ok_def]]
  obtain e where r: "expose_new_picture s =
           Some (s\<lparr>exposed := e,
                   accesses := accesses s @ adopt_accesses s\<rparr>)"
    and p: "online e"
      "allocated (picture e) = max (allocated (picture (exposed s))) (allocated (picture (stream s)))"
      "size_p (picture e) = size_p (picture (stream s))"
      "take (size_p (picture (stream s))) (data (picture e)) =
           take (size_p (picture (stream s))) (data (picture (stream s)))"
      "width e = width (stream s)" "height e = height (stream s)"
      "picture_ok (picture e)"
      "\<forall>i. size_p (picture (stream s)) \<le> i \<and> i < length (data (picture (exposed s))) \<and>
              i < length (data (picture e)) \<longrightarrow>
              data (picture e) ! i = data (picture (exposed s)) ! i"
    by blast
  show ?thesis unfolding r using p by simp
qed

theorem adopt_postcondition_witness:
  "picture_ok (picture (stream server0)) \<and> exposed_ok server0 \<and>
   size_p (picture (stream server0)) > 0 \<and>
   (\<exists>s'. expose_new_picture server0 = Some s' \<and>
      exposed s' = \<lparr>picture = \<lparr>data = ''frame1'', size_p = 6, allocated = 6\<rparr>,
                     width = 320, height = 240, online = True\<rparr> \<and>
      stream s' = stream0)"
  using adopt_postcondition [of server0]
  by (simp add: picture_ok_def exposed_ok_def server0_def stream0_def expose_new_picture_def
        memcpy_def A_REALLOC_def touch_def Let_def)

subsection \<open>The invariant of the exposed snapshot\<close>

lemma http_server_init_blank:
  assumes "blank_ok B"
  shows "\<exists>s. http_server_init B stm = Some s \<and> \<not> online (exposed s) \<and>
             is_blank B (exposed s) \<and> exposed_ok s \<and> stream_clients s = None \<and> stream s = stm"
proof -
  define z where "z = \<lparr>host = ''localhost'', port = 8080, timeout = 10,
        stream = stm,
        exposed = \<lparr>picture = \<lparr>data = [], size_p = 0, allocated = 0\<rparr>,
                   width = 0, height = 0, online = False\<rparr>,
        refresh_interval = (0, 30000),
        stream_clients = None,
        clients = Map.empty,
        connections = Map.empty,
        replies = [],
        freed_requests = [],
        accesses = [],
        hops = 0\<rparr>"
  have "allocated (picture (exposed z)) \<le> length (data (picture (exposed z)))"
    and "online (exposed z) \<or> size_p (picture (exposed z)) = 0"
    by (simp_all add: z_def)
  from expose_blank_picture_first [OF assms this] obtain e where
    "expose_blank_picture B z = Some (z\<lparr>exposed := e\<rparr>)" "is_blank B e" "\<not> online e"
    "allocated (picture e) \<le> length (data (picture e))" by blast
  then show ?thesis
    by (simp add: http_server_init_def z_def [symmetric] exposed_ok_def) (simp add: z_def)
qed

text \<open>
  Claim C4. Whenever \<open>online\<close> is false, the exposed picture (its first \<open>size\<close> bytes,
  its width and its height) equals the blank picture. \<open>blank_inv\<close> holds after
  \<^verbatim>\<open>http_server_init\<close> and is kept by adopt, by blankify and by every refresh tick;
  each of them returns from a well-formed state, and keeps the exposed block well
  formed.
\<close>

theorem offline_snapshot_is_blank:
  assumes "blank_ok B"
  shows "(\<exists>s0. http_server_init B stm = Some s0 \<and> blank_inv B s0 \<and> exposed_ok s0) \<and>
         (blank_inv B s \<and> exposed_ok s \<and> picture_ok (picture (stream s)) \<longrightarrow>
            (\<exists>s'. expose_new_picture s = Some s' \<and> blank_inv B s' \<and> exposed_ok s')) \<and>
         (blank_inv B s \<and> exposed_ok s \<longrightarrow>
            (\<exists>s'. expose_blank_picture B s = Some s' \<and> blank_inv B s' \<and> exposed_ok s')) \<and>
         (blank_inv B s \<and> exposed_ok s \<and> picture_ok (picture (stream s)) \<and>
            \<not> mutex (stream s) \<and> clients_ok s xs \<longrightarrow>
            (\<exists>s'. http_exposed_refresh B s = Some s' \<and> blank_inv B s' \<and> exposed_ok s'))"
proof (intro conjI impI)
  from http_server_init_blank [OF assms, of stm]
  show "\<exists>s0. http_server_init B stm = Some s0 \<and> blank_inv B s0 \<and> exposed_ok s0"
    by (auto simp: blank_inv_def)
next
  assume "blank_inv B s \<and> exposed_ok s \<and> picture_ok (picture (stream s))"
  then have "picture_ok (picture (stream s))"
    "allocated (picture (exposed s)) \<le> length (data (picture (exposed s)))"
    by (simp_all add: exposed_ok_def)
  from expose_new_picture_Some [OF this]
  show "\<exists>s'. expose_new_picture s = Some s' \<and> blank_inv B s' \<and> exposed_ok s'"
    by (auto simp: blank_inv_def exposed_ok_def picture_ok_def)
next
  assume a: "blank_inv B s \<and> exposed_ok s"
  with expose_blank_picture_total [OF assms, of s]
  show "\<exists>s'. expose_blank_picture B s = Some s' \<and> blank_inv B s' \<and> exposed_ok s'"
    by (auto simp: blank_inv_def exposed_ok_def)
next
  assume a: "blank_inv B s \<and> exposed_ok s \<and> picture_ok (picture (stream s)) \<and>
            \<not> mutex (stream s) \<and> clients_ok s xs"
  then have "\<not> mutex (stream s)" "picture_ok (picture (stream s))"
    "allocated (picture (exposed s)) \<le> length (data (picture (exposed s)))"
    "clients_ok s xs" by (simp_all add: exposed_ok_def)
  from http_exposed_refresh_result [OF this(1,2,3) assms this(4)] a
  show "\<exists>s'. http_exposed_refresh B s = Some s' \<and> blank_inv B s' \<and> exposed_ok s'"
    by (auto simp: blank_inv_def exposed_ok_def)
qed

lemma server0_ok:
  "blank_ok blank0" "blank_inv blank0 server0" "exposed_ok server0"
  "picture_ok (picture (stream server0))" "\<not> mutex (stream server0)"
  "clients_ok server0 [1, 2, 3]"
  by (simp_all add: blank_ok_def blank_inv_def is_blank_def exposed_ok_def picture_ok_def
        clients_ok_def registry_def conns_live_def blank0_def server0_def stream0_def get0_def)

theorem offline_snapshot_is_blank_witness:
  "blank_ok blank0 \<and> blank_inv blank0 server0 \<and> exposed_ok server0 \<and>
   picture_ok (picture (stream server0)) \<and> \<not> mutex (stream server0) \<and>
   clients_ok server0 [1, 2, 3] \<and>
   (\<exists>s0. http_server_init blank0 stream0 = Some s0 \<and> blank_inv blank0 s0 \<and> exposed_ok s0) \<and>
   (\<exists>s'. expose_new_picture server0 = Some s' \<and> blank_inv blank0 s' \<and> exposed_ok s') \<and>
   (\<exists>s'. expose_blank_picture blank0 server0 = Some s' \<and> blank_inv blank0 s' \<and> exposed_ok s') \<and>
   (\<exists>s'. http_exposed_refresh blank0 server0 = Some s' \<and> blank_inv blank0 s' \<and> exposed_ok s')"
  using offline_snapshot_is_blank [of blank0 stream0 server0 "[1, 2, 3]"] server0_ok
  by simp

subsection \<open>The lock discipline of a tick\<close>

lemma tick_accesses_disciplined:
  "lock_discipline False (tick_accesses s) \<and> frame_copies (tick_accesses s) \<le> 1 \<and>
   (tick_accesses s \<noteq> [] \<longleftrightarrow> updated (stream s))"
  by (simp add: tick_accesses_def adopt_accesses_def frame_copies_def)

text \<open>
  Claim C2, as the code has it. A tick reads \<open>updated\<close> once before it takes the
  lock. Everything it does to the stream slot after that read obeys the lock
  discipline: it locks only if the read was true, reads the picture, the width and
  the height and clears \<open>updated\<close> only while it holds the mutex, copies at most one
  frame, and has released the mutex when it returns. If the read was false it does
  not touch the slot again.
\<close>

theorem tick_lock_discipline:
  assumes "\<not> mutex (stream s)" and "picture_ok (picture (stream s))" and "exposed_ok s"
    and "blank_ok B" and "clients_ok s xs"
  shows "\<exists>s'. http_exposed_refresh B s = Some s' \<and>
           accesses s' = accesses s @ Read F_updated # tick_accesses s \<and>
           lock_discipline False (tick_accesses s) \<and>
           frame_copies (tick_accesses s) \<le> 1 \<and>
           (tick_accesses s \<noteq> [] \<longleftrightarrow> updated (stream s)) \<and>
           \<not> mutex (stream s') \<and> \<not> updated (stream s')"
proof -
  from http_exposed_refresh_result [OF assms(1,2) assms(3) [unfolded exposed_ok_def] assms(4,5)]
  obtain e cs where "http_exposed_refresh B s =
           Some (s\<lparr>stream := (stream s)\<lparr>updated := False, mutex := False\<rparr>,
                   exposed := e,
                   accesses := accesses s @ Read F_updated # tick_accesses s,
                   connections := cs\<rparr>)" by blast
  then show ?thesis using tick_accesses_disciplined [of s] by simp
qed

lemma server1_ok:
  "exposed_ok server1" "picture_ok (picture (stream server1))" "\<not> mutex (stream server1)"
  "clients_ok server1 [1, 2, 3]"
  by (simp_all add: exposed_ok_def picture_ok_def clients_ok_def registry_def conns_live_def
        server1_def server0_def stream0_def get0_def)

theorem tick_lock_discipline_witness:
  "\<not> mutex (stream server0) \<and> picture_ok (picture (stream server0)) \<and> exposed_ok server0 \<and>
   blank_ok blank0 \<and> clients_ok server0 [1, 2, 3] \<and>
   (\<exists>s'. http_exposed_refresh blank0 server0 = Some s' \<and>
      accesses s' = [Read F_updated, Lock, Read F_picture_size,
                     Read F_picture_allocated, Read F_picture_allocated, Read F_picture_allocated,
                     Read F_picture_data, Read F_picture_size, Read F_picture_size,
                     Read F_width, Read F_height, Write F_updated, Unlock] \<and>
      \<not> mutex (stream s') \<and> \<not> updated (stream s')) \<and>
   \<not> mutex (stream server1) \<and> picture_ok (picture (stream server1)) \<and> exposed_ok server1 \<and>
   clients_ok server1 [1, 2, 3] \<and>
   (\<exists>s'. http_exposed_refresh blank0 server1 = Some s' \<and>
      accesses s' = [Read F_updated, Lock, Read F_picture_size,
                     Read F_picture_allocated,
                     Read F_picture_data, Read F_picture_size, Read F_picture_size,
                     Read F_width, Read F_height, Write F_updated, Unlock] \<and>
      \<not> mutex (stream s') \<and> \<not> updated (stream s'))"
proof -
  have "tick_accesses server0 =
      [Lock, Read F_picture_size,
       Read F_picture_allocated, Read F_picture_allocated, Read F_picture_allocated,
       Read F_picture_data, Read F_picture_size, Read F_picture_size,
       Read F_width, Read F_height, Write F_updated, Unlock]"
    and "accesses server0 = []"
    and "tick_accesses server1 =
      [Lock, Read F_picture_size, Read F_picture_allocated,
       Read F_picture_data, Read F_picture_size, Read F_picture_size,
       Read F_width, Read F_height, Write F_updated, Unlock]"
    and "accesses server1 = []"
    by (simp_all add: tick_accesses_def adopt_accesses_def server1_def server0_def stream0_def)
  then show ?thesis
    using tick_lock_discipline [of server0 blank0 "[1, 2, 3]"]
      tick_lock_discipline [of server1 blank0 "[1, 2, 3]"] server0_ok server1_ok
    by auto
qed

text \<open>
  Claim C2 as stated fails: the tick of \<open>server0\<close> reads \<open>updated\<close> first and takes
  the lock second, so the sequence of its accesses does not obey the lock
  discipline. (The exposed block of \<open>server0\<close> has 4 bytes and the frame needs 6, so
  the block grows and \<^verbatim>\<open>picture.allocated\<close> is read three times.)
\<close>

theorem tick_reads_updated_before_lock:
  "map_option accesses (http_exposed_refresh blank0 server0) =
     Some [Read F_updated, Lock, Read F_picture_size,
           Read F_picture_allocated, Read F_picture_allocated, Read F_picture_allocated,
           Read F_picture_data, Read F_picture_size, Read F_picture_size,
           Read F_width, Read F_height, Write F_updated, Unlock] \<and>
   \<not> lock_discipline False
       [Read F_updated, Lock, Read F_picture_size,
        Read F_picture_allocated, Read F_picture_allocated, Read F_picture_allocated,
        Read F_picture_data, Read F_picture_size, Read F_picture_size,
        Read F_width, Read F_height, Write F_updated, Unlock]"
  by (simp add: http_exposed_refresh_def A_PTHREAD_M_LOCK_def UNLOCK_STREAM_def
        A_PTHREAD_M_UNLOCK_def expose_new_picture_def memcpy_def A_REALLOC_def touch_def
        http_queue_send_stream_def queue_send_from.simps bufferevent_setcb_def
        bufferevent_enable_def server0_def stream0_def get0_def bev0_def Let_def)

subsection \<open>The snapshot reply\<close>

lemma digit_in_digits: "d < 10 \<Longrightarrow> ''0123456789'' ! d \<in> set ''0123456789''"
  by (rule nth_mem) simp

lemma dec_digits: "set (dec n) \<subseteq> set ''0123456789''"
proof (induction n rule: dec.induct)
  case (1 n)
  show ?case
  proof (cases "n < 10")
    case True
    then show ?thesis using digit_in_digits [of n] by (subst dec.simps) simp
  next
    case False
    have "n mod 10 < 10" by simp
    from digit_in_digits [OF this] "1.IH" [OF False] False
    show ?thesis by (subst dec.simps) simp
  qed
qed

lemma dec06_digits: "set (dec06 n) \<subseteq> set ''0123456789''"
  using dec_digits [of n] by (auto simp: dec06_def)

lemma breaks_not_digits:
  "CHR 0x0D \<notin> set ''0123456789''" "CHR 0x0A \<notin> set ''0123456789''"
  by simp_all

lemma dec_no_break: "CHR 0x0D \<notin> set (dec n)" "CHR 0x0A \<notin> set (dec n)"
  using dec_digits [of n] breaks_not_digits by blast+

lemma dec06_no_break: "CHR 0x0D \<notin> set (dec06 n)" "CHR 0x0A \<notin> set (dec06 n)"
  using dec06_digits [of n] breaks_not_digits by blast+

lemma x_timestamp_no_break:
  "CHR 0x0D \<notin> set (x_timestamp ts)" "CHR 0x0A \<notin> set (x_timestamp ts)"
  by (simp_all add: x_timestamp_def dec_no_break dec06_no_break)

lemma ADD_HEADER_Some:
  "CHR 0x0D \<notin> set k \<Longrightarrow> CHR 0x0A \<notin> set k \<Longrightarrow> CHR 0x0D \<notin> set v \<Longrightarrow> CHR 0x0A \<notin> set v \<Longrightarrow>
   ADD_HEADER k v req = Some (req\<lparr>output_headers := output_headers req @ [(k, v)]\<rparr>)"
  by (simp add: ADD_HEADER_def)

text \<open>
  Claim C3. What \<^verbatim>\<open>GET /snapshot\<close> sends: \<^verbatim>\<open>200 OK\<close>, the six headers the handler
  adds, and the exposed picture as the body. The first header is named
  \<^verbatim>\<open>Access-Control-Allow-Origin:\<close>, with the colon of the source's string literal in
  the name; the other five and the body are as the claim says.
\<close>

theorem snapshot_reply:
  assumes "command req \<noteq> EVHTTP_REQ_HEAD"
    and "size_p (picture (exposed s)) \<le> length (data (picture (exposed s)))"
  shows "http_callback_snapshot ts req s =
     Some (s\<lparr>replies := replies s @
        [\<lparr>reply_to = req_id req, code = 200, reason = ''OK'',
          headers = output_headers req @
            [(''Access-Control-Allow-Origin:'', ''*''),
             (''Cache-Control'',
              ''no-store, no-cache, must-revalidate, pre-check=0, post-check=0, max-age=0''),
             (''Pragma'', ''no-cache''),
             (''Expires'', ''Mon, 3 Jan 2000 12:34:56 GMT''),
             (''X-Timestamp'', x_timestamp ts),
             (''Content-Type'', ''image/jpeg'')],
          body = take (size_p (picture (exposed s))) (data (picture (exposed s)))\<rparr>]\<rparr>)"
  using assms
  by (simp add: http_callback_snapshot_def evbuffer_add_def ADD_HEADER_Some x_timestamp_no_break
        evhttp_send_reply_def HTTP_OK_def)

lemma replicate_two: "replicate 2 x = [x, x]"
  by (simp add: numeral_2_eq_2)

lemma x_timestamp_now0: "x_timestamp now0 = ''1540000000.005000''"
  by (simp add: x_timestamp_def now0_def to_unsigned_def c_div_def dec06_def dec.simps
        replicate_two)

text \<open>
  The reply to a \<^verbatim>\<open>GET /snapshot\<close> on \<open>server0\<close>: no header of it is named
  \<^verbatim>\<open>Access-Control-Allow-Origin\<close>.
\<close>

theorem snapshot_reply_witness:
  "command (get0 9 (Some 40)) \<noteq> EVHTTP_REQ_HEAD \<and>
   size_p (picture (exposed server0)) \<le> length (data (picture (exposed server0))) \<and>
   map_option (\<lambda>s'. headers (last (replies s')))
       (http_callback_snapshot now0 (get0 9 (Some 40)) server0) =
     Some [(''Access-Control-Allow-Origin:'', ''*''),
           (''Cache-Control'',
            ''no-store, no-cache, must-revalidate, pre-check=0, post-check=0, max-age=0''),
           (''Pragma'', ''no-cache''),
           (''Expires'', ''Mon, 3 Jan 2000 12:34:56 GMT''),
           (''X-Timestamp'', ''1540000000.005000''),
           (''Content-Type'', ''image/jpeg'')] \<and>
   map_option (\<lambda>s'. body (last (replies s')))
       (http_callback_snapshot now0 (get0 9 (Some 40)) server0) =
     Some [CHR 0xFF, CHR 0xD8, CHR 0xFF, CHR 0xD9] \<and>
   ''Access-Control-Allow-Origin'' \<notin>
     set [''Access-Control-Allow-Origin:'', ''Cache-Control'', ''Pragma'', ''Expires'',
          ''X-Timestamp'', ''Content-Type'']"
  using snapshot_reply [of "get0 9 (Some 40)" server0 now0]
  by (simp add: x_timestamp_now0 get0_def server0_def)

subsection \<open>The bytes a stream client receives\<close>

text \<open>
  The strings the source builds from \<^verbatim>\<open>RN\<close> and \<^verbatim>\<open>BOUNDARY\<close> are the preamble
  and the part of the specification.
\<close>

lemma code_preamble:
  "''HTTP/1.0 200 OK'' @ RN @
   ''Access-Control-Allow-Origin: *'' @ RN @
   ''Cache-Control: no-store, no-cache, must-revalidate, pre-check=0, post-check=0, max-age=0'' @ RN @
   ''Pragma: no-cache'' @ RN @
   ''Expires: Mon, 3 Jan 2000 12:34:56 GMT'' @ RN @
   ''Content-Type: multipart/x-mixed-replace;boundary='' @ BOUNDARY @ RN @
   RN @
   ''--'' @ BOUNDARY @ RN = stream_preamble"
  by (simp add: stream_preamble_def RN_def BOUNDARY_def crlf_def)

lemma code_part:
  "n \<le> length d \<Longrightarrow>
   ''Content-Type: image/jpeg'' @ RN @
   ''Content-Length: '' @ dec (n * 1) @ RN @
   ''X-Timestamp: '' @ ts @ RN @
   RN @ take n d @ RN @ ''--'' @ BOUNDARY @ RN = multipart_part ts (take n d)"
  by (simp add: multipart_part_def RN_def BOUNDARY_def crlf_def)






lemma attach_same_client_view:
  assumes run: "http_callback_stream d req t = Some t'" and fresh: "clients t d = None"
    and c: "clients t c \<noteq> None" and k: "connections t k \<noteq> None"
  shows "same_client_view k c t t'"
proof -
  from c fresh have ne: "c \<noteq> d" by auto
  show ?thesis
  proof (cases "command req = EVHTTP_REQ_HEAD")
    case True
    with run c k show ?thesis
      by (auto simp: http_callback_stream_def evhttp_send_reply_def same_client_view_def)
  next
    case get: False
    show ?thesis
    proof (cases "evcon req")
      case None
      with run get c k show ?thesis
        by (auto simp: http_callback_stream_def evhttp_request_free_def same_client_view_def)
    next
      case (Some conn)
      define cl where "cl = \<lparr>request = req, need_initial = True,
                       prev_client = None, next_client = None\<rparr>"
      define link where "link = (case stream_clients t of
                None \<Rightarrow> Some (t\<lparr>stream_clients := Some d, clients := (clients t)(d \<mapsto> cl)\<rparr>)
              | Some first \<Rightarrow>
                  last_client_from (clients t) first 0 \<bind>
                  (\<lambda>(lastc, nhops). clients t lastc \<bind>
                     (\<lambda>lc. Some (t\<lparr>clients := (clients t)
                                 (d \<mapsto> cl\<lparr>prev_client := Some lastc\<rparr>,
                                  lastc \<mapsto> lc\<lparr>next_client := Some d\<rparr>),
                               hops := hops t + nhops\<rparr>))))"
      have "http_callback_stream d req t =
          link \<bind> (\<lambda>t1. connections t1 conn \<bind>
            (\<lambda>b. Some (t1\<lparr>connections := (connections t1)(conn \<mapsto>
                      bufferevent_enable {EV_READ}
                        (bufferevent_setcb None None (Some Http_callback_stream_error) d b))\<rparr>)))"
        using get Some unfolding http_callback_stream_def link_def cl_def Let_def by simp
      with run have "\<exists>t1. link = Some t1 \<and> (\<exists>b. connections t1 conn = Some b \<and>
            t' = t1\<lparr>connections := (connections t1)(conn \<mapsto>
                      bufferevent_enable {EV_READ}
                        (bufferevent_setcb None None (Some Http_callback_stream_error) d b))\<rparr>)"
        by (auto simp: bind_eq_Some_conv)
      then obtain t1 b where t1: "link = Some t1"
        and b: "connections t1 conn = Some b"
        and t': "t' = t1\<lparr>connections := (connections t1)(conn \<mapsto>
                      bufferevent_enable {EV_READ}
                        (bufferevent_setcb None None (Some Http_callback_stream_error) d b))\<rparr>"
        by blast
      from t1 ne have n1:
        "map_option need_initial (clients t1 c) = map_option need_initial (clients t c)"
        and k1: "connections t1 = connections t"
        unfolding link_def cl_def by (auto simp: bind_eq_Some_conv split: option.splits prod.splits)
      from n1 c have c1: "clients t1 c \<noteq> None" by (cases "clients t1 c") auto
      have "map_option outbuf (connections t' k) = map_option outbuf (connections t k)"
        using b k1 by (simp add: t' bufferevent_enable_def bufferevent_setcb_def)
      moreover from this k have "connections t' k \<noteq> None" by (cases "connections t' k") auto
      ultimately show ?thesis using n1 c1 by (simp add: same_client_view_def t')
    qed
  qed
qed

lemma detach_same_client_view:
  assumes run: "http_callback_stream_error d t = Some t'"
    and ne: "d \<noteq> c" and c: "clients t c \<noteq> None" and k: "connections t k \<noteq> None"
    and other: "\<forall>cl. clients t d = Some cl \<longrightarrow> evcon (request cl) \<noteq> Some k"
  shows "same_client_view k c t t'"
proof -
  define free_conn where "free_conn = (\<lambda>cc :: stream_client_t. case evcon (request cc) of
             Some conn \<Rightarrow> evhttp_connection_free conn t
           | None \<Rightarrow> Some t)"
  define set_prev where "set_prev = (\<lambda>(cc :: stream_client_t) (t1 :: http_server_t). case prev_client cc of
             None \<Rightarrow> Some (t1\<lparr>stream_clients := next_client cc\<rparr>)
           | Some p \<Rightarrow> clients t1 p \<bind>
               (\<lambda>pc. Some (t1\<lparr>clients := (clients t1)(p \<mapsto> pc\<lparr>next_client := next_client cc\<rparr>)\<rparr>)))"
  define set_next where "set_next = (\<lambda>(cc :: stream_client_t) (t2 :: http_server_t). case next_client cc of
             Some n \<Rightarrow> clients t2 n \<bind>
               (\<lambda>nc. Some (t2\<lparr>clients := (clients t2)(n \<mapsto> nc\<lparr>prev_client := prev_client cc\<rparr>)\<rparr>))
           | None \<Rightarrow> Some t2)"
  have "http_callback_stream_error d t =
      clients t d \<bind> (\<lambda>cc. free_conn cc \<bind> (\<lambda>t1. set_prev cc t1 \<bind> (\<lambda>t2. set_next cc t2 \<bind>
        (\<lambda>t3. Some (t3\<lparr>clients := (clients t3)(d := None)\<rparr>)))))"
    unfolding http_callback_stream_error_def free_conn_def set_prev_def set_next_def by simp
  with run have "\<exists>cc t1 t2 t3. clients t d = Some cc \<and> free_conn cc = Some t1 \<and>
      set_prev cc t1 = Some t2 \<and> set_next cc t2 = Some t3 \<and>
      t' = t3\<lparr>clients := (clients t3)(d := None)\<rparr>"
    by (auto simp: bind_eq_Some_conv)
  then obtain cc t1 t2 t3 where cc: "clients t d = Some cc"
    and e1: "free_conn cc = Some t1" and e2: "set_prev cc t1 = Some t2"
    and e3: "set_next cc t2 = Some t3"
    and t': "t' = t3\<lparr>clients := (clients t3)(d := None)\<rparr>"
    by blast
  from other cc have nk: "evcon (request cc) \<noteq> Some k" by blast
  from e1 nk have a1: "clients t1 = clients t" "connections t1 k = connections t k"
    by (auto simp: free_conn_def evhttp_connection_free_def split: option.splits)
  from e2 have a2: "connections t2 = connections t1"
    "map_option need_initial (clients t2 c) = map_option need_initial (clients t1 c)"
    by (auto simp: set_prev_def bind_eq_Some_conv split: option.splits)
  from e3 have a3: "connections t3 = connections t2"
    "map_option need_initial (clients t3 c) = map_option need_initial (clients t2 c)"
    by (auto simp: set_next_def bind_eq_Some_conv split: option.splits)
  have n: "map_option need_initial (clients t' c) = map_option need_initial (clients t c)"
    using ne a1 a2 a3 by (simp add: t')
  with c have "clients t' c \<noteq> None" by (cases "clients t' c") auto
  moreover have "connections t' k = connections t k" using a1 a2 a3 by (simp add: t')
  ultimately show ?thesis using n k by (simp add: same_client_view_def)
qed





subsection \<open>The registry\<close>

lemma dll_dlseg: "dll h p q xs = dlseg h p q xs None"
  by (induction xs arbitrary: p q) (auto split: option.splits)

lemma dlseg_append:
  "dlseg h p q (xs @ ys) r = (\<exists>m. dlseg h p q xs m \<and> dlseg h (last_or p xs) m ys r)"
proof (induction xs arbitrary: p q)
  case Nil
  show ?case by (simp add: last_or_def)
next
  case (Cons x xs)
  have l: "last_or (Some x) xs = last_or p (x # xs)" by (simp add: last_or_def)
  show ?case by (simp add: Cons.IH l split: option.splits)
qed

lemma dlseg_cells: "dlseg h p q xs r \<Longrightarrow> x \<in> set xs \<Longrightarrow> h x \<noteq> None"
  by (induction xs arbitrary: p q) (auto split: option.splits)

lemma dlseg_cong:
  "dlseg h p q xs r \<Longrightarrow> (\<And>x. x \<in> set xs \<Longrightarrow> h' x = h x) \<Longrightarrow> dlseg h' p q xs r"
  by (induction xs arbitrary: p q) (auto split: option.splits)

lemma dlseg_unique:
  "dlseg h p q xs None \<Longrightarrow> dlseg h p' q ys None \<Longrightarrow> xs = ys"
proof (induction xs arbitrary: p p' q ys)
  case Nil
  then show ?case by (cases ys) auto
next
  case (Cons x xs)
  then show ?case by (cases ys) (auto split: option.splits)
qed

lemma dlseg_head_fresh:
  assumes "h x = Some c" and "dlseg h (Some x) (next_client c) xs None"
  shows "x \<notin> set xs"
proof
  assume "x \<in> set xs"
  then obtain ys zs where xs: "xs = ys @ x # zs" by (auto simp: in_set_conv_decomp)
  with assms(2) obtain m where "dlseg h (last_or (Some x) ys) m (x # zs) None"
    by (auto simp: dlseg_append)
  with assms(1) have "dlseg h (Some x) (next_client c) zs None" by simp
  from dlseg_unique [OF this assms(2)] xs show False by simp
qed

lemma dlseg_distinct: "dlseg h p q xs None \<Longrightarrow> distinct xs"
proof (induction xs arbitrary: p q)
  case Nil
  show ?case by simp
next
  case (Cons x xs)
  then obtain c where c: "h x = Some c" and tl: "dlseg h (Some x) (next_client c) xs None"
    by (auto split: option.splits)
  from dlseg_head_fresh [OF c tl] Cons.IH [OF tl] show ?case by simp
qed

lemma dll_distinct: "dll h p q xs \<Longrightarrow> distinct xs"
  by (simp add: dll_dlseg dlseg_distinct)

lemma dlseg_unlinked_tail:
  assumes hc: "h c = Some cc"
    and pr: "prev_client cc = last_or None as"
    and tl: "dlseg h (Some c) (next_client cc) bs None"
    and dis: "distinct (as @ c # bs)"
  shows "dlseg (unlinked h c cc) (last_or None as) (next_client cc) bs None"
proof (cases bs)
  case Nil
  with tl show ?thesis by simp
next
  case (Cons n bs')
  with tl obtain nc where n: "next_client cc = Some n" "h n = Some nc"
    and rest: "dlseg h (Some n) (next_client nc) bs' None"
    by (auto split: option.splits)
  from dis Cons have ne: "n \<noteq> c" "n \<notin> set as" "n \<notin> set bs'" "c \<notin> set bs'"
    "set as \<inter> set bs' = {}" by auto
  have np: "prev_client cc \<noteq> Some n"
    using pr ne(2) by (auto simp: last_or_def split: if_splits)
  have hn: "unlinked h c cc n = Some (nc\<lparr>prev_client := last_or None as\<rparr>)"
    using n ne(1) np pr by (auto simp: unlinked_def Let_def split: option.splits)
  have same: "unlinked h c cc x = h x" if "x \<in> set bs'" for x
  proof -
    from that ne have "x \<noteq> n" "x \<noteq> c" "x \<notin> set as" by auto
    moreover from this pr have "prev_client cc \<noteq> Some x"
      by (auto simp: last_or_def split: if_splits)
    ultimately show ?thesis using n by (auto simp: unlinked_def Let_def split: option.splits)
  qed
  have "dlseg (unlinked h c cc) (Some n) (next_client nc) bs' None"
    using rest same by (rule dlseg_cong)
  with hn n Cons show ?thesis by simp
qed

lemma dlseg_unlinked_front:
  assumes seg: "dlseg h None q as (Some c)"
    and hc: "h c = Some cc"
    and pr: "prev_client cc = last_or None as"
    and tl: "dlseg h (Some c) (next_client cc) bs None"
    and dis: "distinct (as @ c # bs)"
  shows "dlseg (unlinked h c cc) None
           (case prev_client cc of None \<Rightarrow> next_client cc | Some p \<Rightarrow> q) as (next_client cc)"
proof (cases as rule: rev_cases)
  case Nil
  with pr show ?thesis by (simp add: last_or_def)
next
  case (snoc as' p)
  with pr have p: "prev_client cc = Some p" by (simp add: last_or_def)
  from seg snoc obtain pc where
    front: "dlseg h None q as' (Some p)" and hp: "h p = Some pc"
    and pp: "prev_client pc = last_or None as'" and pn: "next_client pc = Some c"
    by (auto simp: dlseg_append split: option.splits)
  from dis snoc have ne: "p \<noteq> c" "p \<notin> set as'" "p \<notin> set bs" "c \<notin> set as'"
    "set as' \<inter> set bs = {}" by auto
  have nn: "next_client cc \<noteq> Some p"
    using tl ne(3) by (cases bs) (auto split: option.splits)
  have hp': "unlinked h c cc p = Some (pc\<lparr>next_client := next_client cc\<rparr>)"
    using p hp ne(1) nn by (auto simp: unlinked_def Let_def split: option.splits)
  have same: "unlinked h c cc x = h x" if "x \<in> set as'" for x
  proof -
    from that ne have "x \<noteq> p" "x \<noteq> c" "x \<notin> set bs" by auto
    moreover from this tl have "next_client cc \<noteq> Some x"
      by (cases bs) (auto split: option.splits)
    ultimately show ?thesis using p by (auto simp: unlinked_def Let_def split: option.splits)
  qed
  have "dlseg (unlinked h c cc) None q as' (Some p)"
    using front same by (rule dlseg_cong)
  with hp' pp p snoc show ?thesis by (auto simp: dlseg_append)
qed

lemma dll_unlinked:
  assumes "dll h None q (as @ c # bs)" and hc: "h c = Some cc"
  shows "dll (unlinked h c cc) None
           (case prev_client cc of None \<Rightarrow> next_client cc | Some p \<Rightarrow> q) (as @ bs)"
proof -
  from assms(1) have all: "dlseg h None q (as @ c # bs) None" by (simp add: dll_dlseg)
  then have dis: "distinct (as @ c # bs)" by (rule dlseg_distinct)
  from all hc have seg: "dlseg h None q as (Some c)"
    and pr: "prev_client cc = last_or None as"
    and tl: "dlseg h (Some c) (next_client cc) bs None"
    by (auto simp: dlseg_append split: option.splits)
  from dlseg_unlinked_front [OF seg hc pr tl dis] dlseg_unlinked_tail [OF hc pr tl dis]
  show ?thesis by (auto simp: dll_dlseg dlseg_append)
qed

lemma stream_error_result:
  assumes cl: "clients s c = Some cc"
    and live: "\<forall>k. evcon (request cc) = Some k \<longrightarrow> connections s k \<noteq> None"
    and pv: "\<forall>p. prev_client cc = Some p \<longrightarrow> clients s p \<noteq> None"
    and nx: "\<forall>n. next_client cc = Some n \<longrightarrow> clients s n \<noteq> None"
  shows "http_callback_stream_error c s =
     Some (s\<lparr>connections := (case evcon (request cc) of
                                None \<Rightarrow> connections s
                              | Some k \<Rightarrow> (connections s)(k := None)),
             stream_clients := (case prev_client cc of
                                  None \<Rightarrow> next_client cc
                                | Some p \<Rightarrow> stream_clients s),
             clients := unlinked (clients s) c cc\<rparr>)"
proof -
  define s1 where "s1 = s\<lparr>connections := (case evcon (request cc) of
                                None \<Rightarrow> connections s
                              | Some k \<Rightarrow> (connections s)(k := None))\<rparr>"
  have e1: "(case evcon (request cc) of Some conn \<Rightarrow> evhttp_connection_free conn s
             | None \<Rightarrow> Some s) = Some s1"
    using live by (auto simp: s1_def evhttp_connection_free_def split: option.splits)
  define s2 where "s2 = s1\<lparr>stream_clients := (case prev_client cc of
                                  None \<Rightarrow> next_client cc
                                | Some p \<Rightarrow> stream_clients s),
           clients := (case prev_client cc of
                  None \<Rightarrow> clients s
                | Some p \<Rightarrow> (clients s)(p \<mapsto> (the (clients s p))\<lparr>next_client := next_client cc\<rparr>))\<rparr>"
  have e2: "(case prev_client cc of
             None \<Rightarrow> Some (s1\<lparr>stream_clients := next_client cc\<rparr>)
           | Some p \<Rightarrow> clients s1 p \<bind>
               (\<lambda>pc. Some (s1\<lparr>clients := (clients s1)(p \<mapsto> pc\<lparr>next_client := next_client cc\<rparr>)\<rparr>))) = Some s2"
    using pv by (auto simp: s1_def s2_def split: option.splits)
  define s3 where "s3 = s2\<lparr>clients := (case next_client cc of
                  None \<Rightarrow> clients s2
                | Some n \<Rightarrow> (clients s2)(n \<mapsto> (the (clients s2 n))\<lparr>prev_client := prev_client cc\<rparr>))\<rparr>"
  have nx2: "\<forall>n. next_client cc = Some n \<longrightarrow> clients s2 n \<noteq> None"
    using nx by (auto simp: s2_def s1_def split: option.splits)
  have e3: "(case next_client cc of
             Some n \<Rightarrow> clients s2 n \<bind>
               (\<lambda>nc. Some (s2\<lparr>clients := (clients s2)(n \<mapsto> nc\<lparr>prev_client := prev_client cc\<rparr>)\<rparr>))
           | None \<Rightarrow> Some s2) = Some s3"
    using nx2 by (auto simp: s3_def split: option.splits)
  have "http_callback_stream_error c s = Some (s3\<lparr>clients := (clients s3)(c := None)\<rparr>)"
    by (simp add: http_callback_stream_error_def cl e1 e2 e3)
  also have "s3\<lparr>clients := (clients s3)(c := None)\<rparr> =
     s\<lparr>connections := (case evcon (request cc) of
                                None \<Rightarrow> connections s
                              | Some k \<Rightarrow> (connections s)(k := None)),
             stream_clients := (case prev_client cc of
                                  None \<Rightarrow> next_client cc
                                | Some p \<Rightarrow> stream_clients s),
             clients := unlinked (clients s) c cc\<rparr>"
    by (simp add: s3_def s2_def s1_def unlinked_def Let_def cong: option.case_cong)
  finally show ?thesis .
qed

lemma unlinked_fields:
  assumes "d \<noteq> c"
    and "\<forall>p. prev_client cc = Some p \<longrightarrow> h p \<noteq> None"
    and "\<forall>n. next_client cc = Some n \<longrightarrow> h n \<noteq> None"
  shows "map_option need_initial (unlinked h c cc d) = map_option need_initial (h d) \<and>
         map_option request (unlinked h c cc d) = map_option request (h d)"
  using assms by (auto simp: unlinked_def Let_def split: option.splits)

lemma dll_neighbours:
  assumes "dll h None q (as @ c # bs)" and "h c = Some cc"
  shows "(\<forall>p. prev_client cc = Some p \<longrightarrow> h p \<noteq> None) \<and>
         (\<forall>n. next_client cc = Some n \<longrightarrow> h n \<noteq> None)"
proof -
  from assms have seg: "dlseg h None q as (Some c)"
    and pr: "prev_client cc = last_or None as"
    and tl: "dlseg h (Some c) (next_client cc) bs None"
    by (auto simp: dll_dlseg dlseg_append split: option.splits)
  have "h p \<noteq> None" if "prev_client cc = Some p" for p
  proof -
    from that pr have "p \<in> set as" by (auto simp: last_or_def split: if_splits)
    with seg show ?thesis by (rule dlseg_cells)
  qed
  moreover have "h n \<noteq> None" if "next_client cc = Some n" for n
    using tl that by (cases bs) (auto split: option.splits)
  ultimately show ?thesis by blast
qed

text \<open>
  Claim C8. Detaching a client of the registry removes exactly that client: the
  call returns, the registry is the old one without the client, in the old order;
  the client's cell is freed; every other cell keeps its request and its
  \<open>need_initial\<close>; of the connections only the detached client's own is freed; the
  exposed snapshot, the stream slot and everything else in the state are as
  before.
\<close>

theorem detach_removes_only_client:
  assumes reg: "registry s xs" and mem: "c \<in> set xs" and live: "conns_live s xs"
  shows "\<exists>s' cc. clients s c = Some cc \<and>
           http_callback_stream_error c s = Some s' \<and>
           registry s' (filter (\<lambda>d. d \<noteq> c) xs) \<and>
           clients s' c = None \<and>
           (\<forall>d. d \<noteq> c \<longrightarrow>
              map_option need_initial (clients s' d) = map_option need_initial (clients s d) \<and>
              map_option request (clients s' d) = map_option request (clients s d)) \<and>
           connections s' = (case evcon (request cc) of
                               None \<Rightarrow> connections s
                             | Some k \<Rightarrow> (connections s)(k := None)) \<and>
           exposed s' = exposed s \<and> stream s' = stream s \<and>
           s' = s\<lparr>connections := connections s', stream_clients := stream_clients s',
                  clients := clients s'\<rparr>"
proof -
  from mem obtain as bs where xs: "xs = as @ c # bs" by (auto simp: in_set_conv_decomp)
  from reg have d: "dll (clients s) None (stream_clients s) (as @ c # bs)"
    by (simp add: registry_def xs)
  then have dis: "distinct (as @ c # bs)" by (rule dll_distinct)
  from d obtain cc where cc: "clients s c = Some cc"
    using dlseg_cells [of "clients s" None "stream_clients s" "as @ c # bs" None c]
    by (auto simp: dll_dlseg)
  from live mem cc have lv: "\<forall>k. evcon (request cc) = Some k \<longrightarrow> connections s k \<noteq> None"
    by (auto simp: conns_live_def list_all_iff split: option.splits)
  from dll_neighbours [OF d cc] have
    pv: "\<forall>p. prev_client cc = Some p \<longrightarrow> clients s p \<noteq> None" and
    nx: "\<forall>n. next_client cc = Some n \<longrightarrow> clients s n \<noteq> None" by blast+
  define s' where "s' = s\<lparr>connections := (case evcon (request cc) of
                                None \<Rightarrow> connections s
                              | Some k \<Rightarrow> (connections s)(k := None)),
             stream_clients := (case prev_client cc of
                                  None \<Rightarrow> next_client cc
                                | Some p \<Rightarrow> stream_clients s),
             clients := unlinked (clients s) c cc\<rparr>"
  have run: "http_callback_stream_error c s = Some s'"
    unfolding s'_def by (rule stream_error_result [OF cc lv pv nx])
  have "filter (\<lambda>d. d \<noteq> c) as = as" "filter (\<lambda>d. d \<noteq> c) bs = bs"
    using dis by (auto simp: filter_id_conv)
  then have f: "filter (\<lambda>d. d \<noteq> c) xs = as @ bs"
    by (simp add: xs)
  have r: "registry s' (filter (\<lambda>d. d \<noteq> c) xs)"
    using dll_unlinked [OF d cc] by (simp add: registry_def f s'_def)
  have gone: "clients s' c = None" by (simp add: s'_def unlinked_def Let_def)
  have keep: "\<forall>d. d \<noteq> c \<longrightarrow>
              map_option need_initial (clients s' d) = map_option need_initial (clients s d) \<and>
              map_option request (clients s' d) = map_option request (clients s d)"
    using unlinked_fields [OF _ pv nx] by (simp add: s'_def)
  have rest: "connections s' = (case evcon (request cc) of
                               None \<Rightarrow> connections s
                             | Some k \<Rightarrow> (connections s)(k := None))"
    "exposed s' = exposed s" "stream s' = stream s"
    "s' = s\<lparr>connections := connections s', stream_clients := stream_clients s',
                  clients := clients s'\<rparr>"
    by (simp_all add: s'_def)
  from cc run r gone keep rest show ?thesis by blast
qed

lemma server0_registry: "registry server0 [1, 2, 3]" "conns_live server0 [1, 2, 3]"
  using server0_ok(6) by (simp_all add: clients_ok_def)

theorem detach_removes_only_client_witness:
  "registry server0 [1, 2, 3] \<and> 2 \<in> set [1, 2, 3 :: nat] \<and> conns_live server0 [1, 2, 3] \<and>
   (\<exists>s'. http_callback_stream_error 2 server0 = Some s' \<and>
      registry s' [1, 3] \<and>
      clients s' 2 = None \<and>
      map_option need_initial (clients s' 1) = Some True \<and>
      map_option need_initial (clients s' 3) = Some False \<and>
      connections s' = [10 \<mapsto> bev0, 30 \<mapsto> bev0] \<and>
      exposed s' = exposed server0 \<and> stream s' = stream0)"
proof -
  have m: "2 \<in> set [1, 2, 3 :: nat]" by simp
  have c2: "clients server0 2 = Some \<lparr>request = get0 2 (Some 20), need_initial = False,
                        prev_client = Some 1, next_client = Some 3\<rparr>"
    and c1: "map_option need_initial (clients server0 1) = Some True"
    and c3: "map_option need_initial (clients server0 3) = Some False"
    and st: "stream server0 = stream0"
    by (simp_all add: server0_def)
  have k: "(connections server0)(20 := None) = [10 \<mapsto> bev0, 30 \<mapsto> bev0]"
    by (auto simp: server0_def)
  from detach_removes_only_client [OF server0_registry(1) m server0_registry(2)]
  obtain s' cc where r: "clients server0 2 = Some cc"
    "http_callback_stream_error 2 server0 = Some s'"
    "registry s' (filter (\<lambda>d. d \<noteq> 2) [1, 2, 3])"
    "clients s' 2 = None"
    "\<forall>d. d \<noteq> 2 \<longrightarrow>
       map_option need_initial (clients s' d) = map_option need_initial (clients server0 d) \<and>
       map_option request (clients s' d) = map_option request (clients server0 d)"
    "connections s' = (case evcon (request cc) of
                               None \<Rightarrow> connections server0
                             | Some k \<Rightarrow> (connections server0)(k := None))"
    "exposed s' = exposed server0" "stream s' = stream server0"
    by blast
  from r(1) c2 have "evcon (request cc) = Some 20" by (auto simp: get0_def)
  with r(6) k have "connections s' = [10 \<mapsto> bev0, 30 \<mapsto> bev0]" by simp
  moreover from r(3) have "registry s' [1, 3]" by simp
  moreover from r(5) c1 c3 have "map_option need_initial (clients s' 1) = Some True"
    "map_option need_initial (clients s' 3) = Some False" by simp_all
  ultimately show ?thesis using r(2,4,7,8) st server0_registry m by auto
qed

subsection \<open>Attaching to the registry\<close>

lemma last_client_from_dlseg:
  "dlseg h p (Some x) (x # xs) None \<Longrightarrow>
   last_client_from h x k = Some (last (x # xs), k + length xs)"
proof (induction xs arbitrary: x p k)
  case Nil
  then show ?case
    by (subst last_client_from.simps) (auto split: option.splits)
next
  case (Cons y ys)
  from Cons.prems obtain c where c: "h x = Some c" "next_client c = Some y"
    and tl: "dlseg h (Some x) (Some y) (y # ys) None"
    by (auto split: option.splits)
  have "last_client_from h x k = last_client_from h y (Suc k)"
    using c by (subst last_client_from.simps) simp
  also have "\<dots> = Some (last (y # ys), Suc k + length ys)"
    by (rule Cons.IH [OF tl])
  finally show ?case by simp
qed

lemma dlseg_last_cell:
  assumes "dlseg h p q (ys @ [l]) None"
  shows "\<exists>lc. dlseg h p q ys (Some l) \<and> h l = Some lc \<and>
              prev_client lc = last_or p ys \<and> next_client lc = None"
  using assms by (auto simp: dlseg_append split: option.splits)

lemma dlseg_attach:
  assumes seg: "dlseg h None q xs None" and fresh: "h client = None"
    and lst: "xs \<noteq> [] \<longrightarrow> h (last xs) = Some lc"
  shows "dlseg (if xs = [] then h(client \<mapsto> cl\<lparr>prev_client := None, next_client := None\<rparr>)
                else h(client \<mapsto> cl\<lparr>prev_client := Some (last xs), next_client := None\<rparr>,
                       last xs \<mapsto> lc\<lparr>next_client := Some client\<rparr>))
           None (if xs = [] then Some client else q) (xs @ [client]) None"
proof (cases xs rule: rev_cases)
  case Nil
  then show ?thesis by simp
next
  case (snoc ys l)
  from seg snoc obtain lc' where front: "dlseg h None q ys (Some l)" and hl: "h l = Some lc'"
    and lp: "prev_client lc' = last_or None ys" and ln: "next_client lc' = None"
    using dlseg_last_cell [of h None q ys l] by auto
  from lst snoc hl have lc: "lc' = lc" by simp
  from seg have "distinct xs" by (rule dlseg_distinct)
  with snoc have l_ys: "l \<notin> set ys" by simp
  have cl_xs: "client \<notin> set xs"
    using dlseg_cells [OF seg, of client] fresh by blast
  with snoc have ne: "client \<noteq> l" "client \<notin> set ys" by auto
  define h' where "h' = h(client \<mapsto> cl\<lparr>prev_client := Some l, next_client := None\<rparr>,
                       l \<mapsto> lc\<lparr>next_client := Some client\<rparr>)"
  have "dlseg h' None q ys (Some l)"
    using front
  proof (rule dlseg_cong)
    fix x assume "x \<in> set ys"
    with l_ys ne show "h' x = h x" by (auto simp: h'_def)
  qed
  moreover have "h' l = Some (lc\<lparr>next_client := Some client\<rparr>)"
    "h' client = Some (cl\<lparr>prev_client := Some l, next_client := None\<rparr>)"
    using ne by (simp_all add: h'_def)
  ultimately have "dlseg h' None q ((ys @ [l]) @ [client]) None"
    using lp lc by (simp add: dlseg_append last_or_def)
  with snoc show ?thesis by (simp add: h'_def)
qed

text \<open>
  Claim C9, as the code has it. Attaching a client to a well-formed registry
  returns and puts the client at the end of the registry. To find the end the
  handler walks the list from its head: with \<open>n \<ge> 1\<close> clients attached it follows
  \<open>n - 1\<close> \<^verbatim>\<open>next\<close> pointers (\<open>hops\<close> grows by \<open>length xs - 1\<close>), and none only when
  the registry is empty or has one client. The other cells keep their request and
  \<open>need_initial\<close>; the client's connection gets the error callback and has reads
  enabled.
\<close>

theorem attach_walks_registry:
  assumes reg: "registry s xs" and fresh: "clients s client = None"
    and get: "command req \<noteq> EVHTTP_REQ_HEAD" and con: "evcon req = Some conn"
    and bev: "connections s conn = Some bev"
  shows "\<exists>s'. http_callback_stream client req s = Some s' \<and>
           registry s' (xs @ [client]) \<and>
           hops s' = hops s + (length xs - 1) \<and>
           clients s' client =
             Some \<lparr>request = req, need_initial = True,
                   prev_client = last_or None xs, next_client = None\<rparr> \<and>
           (\<forall>d. d \<noteq> client \<longrightarrow>
              map_option need_initial (clients s' d) = map_option need_initial (clients s d) \<and>
              map_option request (clients s' d) = map_option request (clients s d)) \<and>
           connections s' = (connections s)(conn \<mapsto>
              bufferevent_enable {EV_READ}
                (bufferevent_setcb None None (Some Http_callback_stream_error) client bev)) \<and>
           exposed s' = exposed s \<and> stream s' = stream s"
proof -
  define cl where "cl = \<lparr>request = req, need_initial = True,
                       prev_client = None, next_client = None\<rparr>"
  from reg have seg: "dlseg (clients s) None (stream_clients s) xs None"
    by (simp add: registry_def dll_dlseg)
  show ?thesis
  proof (cases xs)
    case Nil
    with seg have hd: "stream_clients s = None" by simp
    define s' where "s' = s\<lparr>stream_clients := Some client,
                               clients := (clients s)(client \<mapsto> cl),
                               connections := (connections s)(conn \<mapsto>
              bufferevent_enable {EV_READ}
                (bufferevent_setcb None None (Some Http_callback_stream_error) client bev))\<rparr>"
    have run: "http_callback_stream client req s = Some s'"
      using get con bev hd by (simp add: http_callback_stream_def s'_def cl_def)
    have "registry s' (xs @ [client])"
      by (simp add: registry_def s'_def Nil cl_def)
    with run Nil show ?thesis
      by (intro exI [of _ s']) (simp add: s'_def cl_def last_or_def)
  next
    case (Cons x xs')
    with seg have hd: "stream_clients s = Some x" by simp
    from Cons have ne: "xs \<noteq> []" by simp
    from seg Cons have "dlseg (clients s) None (Some x) (x # xs') None" using hd by simp
    from last_client_from_dlseg [OF this, of 0]
    have scan: "last_client_from (clients s) x 0 = Some (last xs, length xs - 1)"
      by (simp add: Cons)
    from ne have "last xs \<in> set xs" by simp
    with dlseg_cells [OF seg] obtain lc where lc: "clients s (last xs) = Some lc" by blast
    define h' where "h' = (clients s)
                (client \<mapsto> cl\<lparr>prev_client := Some (last xs)\<rparr>,
                 last xs \<mapsto> lc\<lparr>next_client := Some client\<rparr>)"
    define s' where "s' = s\<lparr>clients := h', hops := hops s + (length xs - 1),
                               connections := (connections s)(conn \<mapsto>
              bufferevent_enable {EV_READ}
                (bufferevent_setcb None None (Some Http_callback_stream_error) client bev))\<rparr>"
    have run: "http_callback_stream client req s = Some s'"
      using get con bev hd scan lc
      by (simp add: http_callback_stream_def s'_def h'_def cl_def)
    from fresh lc have cne: "client \<noteq> last xs" by auto
    have "dlseg h' None (stream_clients s) (xs @ [client]) None"
      using dlseg_attach [OF seg fresh, of lc cl] lc ne by (simp add: h'_def cl_def)
    then have r: "registry s' (xs @ [client])"
      by (simp add: registry_def dll_dlseg s'_def)
    have c: "clients s' client = Some \<lparr>request = req, need_initial = True,
                   prev_client = last_or None xs, next_client = None\<rparr>"
      using cne ne by (simp add: s'_def h'_def cl_def last_or_def)
    have k: "\<forall>d. d \<noteq> client \<longrightarrow>
              map_option need_initial (clients s' d) = map_option need_initial (clients s d) \<and>
              map_option request (clients s' d) = map_option request (clients s d)"
      using lc by (auto simp: s'_def h'_def)
    from run r c k show ?thesis
      by (intro exI [of _ s']) (simp add: s'_def)
  qed
qed

lemma server2_registry: "registry server2 [1, 2, 3]"
  using server0_registry(1) by (simp add: registry_def server2_def)

theorem attach_walks_registry_witness:
  "registry server2 [1, 2, 3] \<and> clients server2 4 = None \<and>
   command (get0 4 (Some 40)) \<noteq> EVHTTP_REQ_HEAD \<and> evcon (get0 4 (Some 40)) = Some 40 \<and>
   connections server2 40 = Some bev0 \<and>
   (\<exists>s'. http_callback_stream 4 (get0 4 (Some 40)) server2 = Some s' \<and>
      registry s' [1, 2, 3, 4] \<and>
      hops s' = hops server2 + 2 \<and>
      clients s' 4 = Some \<lparr>request = get0 4 (Some 40), need_initial = True,
                            prev_client = Some 3, next_client = None\<rparr>)"
proof -
  have h: "clients server2 4 = None" "command (get0 4 (Some 40)) \<noteq> EVHTTP_REQ_HEAD"
    "evcon (get0 4 (Some 40)) = Some 40" "connections server2 40 = Some bev0"
    by (simp_all add: server2_def server0_def get0_def)
  from attach_walks_registry [OF server2_registry h]
  show ?thesis using server2_registry h by (auto simp: last_or_def)
qed

text \<open>
  Claim C9 as stated fails: attaching a fourth client to the three of \<open>server2\<close>
  follows two \<^verbatim>\<open>next\<close> pointers through the existing clients.
\<close>

theorem attach_scans_three_clients:
  "hops server2 = 0 \<and>
   map_option hops (http_callback_stream 4 (get0 4 (Some 40)) server2) = Some 2"
  by (simp add: http_callback_stream_def server2_def server0_def get0_def
        last_client_from.simps)

end
